theory Spec2Isabelle
  imports Main "HOL-Library.Word"
begin

unbundle bit_operations_syntax

section \<open>Shared vocabulary\<close>

text \<open>
  A device identity is the Go type \<^verbatim>\<open>protocol.DeviceID\<close>, an array of 32 bytes. It is
  modelled as a list of bytes; statements that depend on the length say so.
  A short identity is a 64-bit unsigned integer.
\<close>

type_synonym DeviceID = "8 word list"
type_synonym ShortID = "64 word"

text \<open>
  Go errors are values. The constructors cover the errors that the modelled code builds
  itself; \<open>Err\<close> stands for an error produced by a collaborator (a subscriber, the
  database layer, the control surface).
\<close>

datatype error =
    ShortIDConflict DeviceID DeviceID
  | ErrGeneric
  | ErrNoSuchFile
  | ErrInvalid
  | Err string

text \<open>A Go panic ends the call; it is the left summand of a result.\<close>

datatype panic = Panic string

section \<open>The application object: stopping (part\_001, \<^verbatim>\<open>App\<close>)\<close>

type_synonym ExitStatus = int

definition ExitSuccess :: ExitStatus where "ExitSuccess = 0"
definition ExitError :: ExitStatus where "ExitError = 1"
definition ExitRestart :: ExitStatus where "ExitRestart = 3"
definition ExitUpgrade :: ExitStatus where "ExitUpgrade = 4"

text \<open>
  The fields of \<^verbatim>\<open>App\<close> that starting and stopping read and write. \<open>startOnce\<close>
  and \<open>stopOnce\<close> are the done flags of the two \<^verbatim>\<open>sync.Once\<close> values; \<open>stop\<close> is
  \<open>True\<close> once the channel has been closed.
  Closing a closed channel panics in Go.
\<close>

record App =
  exitStatus :: ExitStatus
  err :: "error option"
  startOnce :: bool
  stopOnce :: bool
  stop :: bool

definition New :: App where
  "New = \<lparr>exitStatus = 0, err = None, startOnce = False, stopOnce = False, stop = False\<rparr>"

definition stopWithErr :: "App \<Rightarrow> ExitStatus \<Rightarrow> error option \<Rightarrow> panic + (ExitStatus \<times> App)" where
  "stopWithErr a stopReason e =
     (if stopOnce a then Inr (exitStatus a, a)
      else
        let a1 = (if exitStatus a = ExitSuccess
                  then a\<lparr>exitStatus := stopReason, err := e\<rparr> else a)
        in if stop a1 then Inl (Panic ''close of closed channel'')
           else let a2 = a1\<lparr>stop := True, stopOnce := True\<rparr>
                in Inr (exitStatus a2, a2))"

definition Stop :: "App \<Rightarrow> ExitStatus \<Rightarrow> panic + (ExitStatus \<times> App)" where
  "Stop a stopReason = stopWithErr a stopReason None"

text \<open>
  The object that \<^verbatim>\<open>New\<close> made, after a first stop call with status \<open>r\<close> and error
  \<open>e\<close>.
\<close>

definition stopped :: "ExitStatus \<Rightarrow> error option \<Rightarrow> App" where
  "stopped r e = New\<lparr>exitStatus := r, err := e, stopOnce := True, stop := True\<rparr>"

section \<open>The configuration data (as used by lib/config/wrapper.go)\<close>

text \<open>
  The struct declarations of the configuration live outside the files at hand; the
  records below carry the fields that the wrapper, the application start-up and the model
  tests read or write. Every field is prefixed with an abbreviation of its struct, since
  several structs share field names (\<^verbatim>\<open>ID\<close>, \<^verbatim>\<open>Devices\<close>, \<^verbatim>\<open>IntroducedBy\<close>).
  Values are immutable here, so the \<^verbatim>\<open>Copy\<close> methods are the identity and are not
  written.
\<close>

record ObservedFolder =
  of_Time :: int
  of_ID :: string
  of_Label :: string

record ObservedDevice =
  od_Time :: int
  od_ID :: DeviceID
  od_Name :: string
  od_Address :: string

record FolderDeviceConfiguration =
  fd_DeviceID :: DeviceID
  fd_IntroducedBy :: DeviceID

record FolderConfiguration =
  fc_ID :: string
  fc_Label :: string
  fc_Path :: string
  fc_Devices :: "FolderDeviceConfiguration list"
  fc_Paused :: bool

record DeviceConfiguration =
  dc_DeviceID :: DeviceID
  dc_Name :: string
  dc_Introducer :: bool
  dc_SkipIntroductionRemovals :: bool
  dc_IntroducedBy :: DeviceID
  dc_AutoAcceptFolders :: bool
  dc_PendingFolders :: "ObservedFolder list"

record OptionsConfiguration =
  opt_ListenAddresses :: "string list"
  opt_GlobalAnnServers :: "string list"
  opt_StunServers :: "string list"
  opt_DefaultFolderPath :: string

record GUIConfiguration =
  gui_Enabled :: bool
  gui_InsecureAdminAccess :: bool

record Configuration =
  cfg_MyID :: DeviceID
  cfg_Folders :: "FolderConfiguration list"
  cfg_Devices :: "DeviceConfiguration list"
  cfg_GUI :: GUIConfiguration
  cfg_Options :: OptionsConfiguration
  cfg_IgnoredDevices :: "ObservedDevice list"
  cfg_PendingDevices :: "ObservedDevice list"

section \<open>The configuration wrapper (lib/config/wrapper.go)\<close>

text \<open>
  A \<^verbatim>\<open>Committer\<close> is an interface value. Its two verdict methods are functions of the
  old and the new configuration; \<open>ptr\<close> is the identity of the object behind the
  interface, which is what \<^verbatim>\<open>w.subs[i] == c\<close> compares.
\<close>

record Committer =
  ptr :: nat
  VerifyConfiguration :: "Configuration \<Rightarrow> Configuration \<Rightarrow> error option"
  CommitConfiguration :: "Configuration \<Rightarrow> Configuration \<Rightarrow> bool"
  String :: string

text \<open>
  The wrapper's fields, the mutex apart. A \<^verbatim>\<open>nil\<close> map is \<open>None\<close>.
  \<open>requiresRestart\<close> is the \<^verbatim>\<open>uint32\<close> used as an atomic boolean.
\<close>

record wrapper =
  cfg :: Configuration
  path :: string
  deviceMap :: "(DeviceID \<rightharpoonup> DeviceConfiguration) option"
  folderMap :: "(string \<rightharpoonup> FolderConfiguration) option"
  subs :: "Committer list"
  requiresRestart :: "32 word"

text \<open>
  \<^verbatim>\<open>notifyListeners\<close> starts one goroutine per subscriber; each is the closure's
  arguments: the committer, the old and the new configuration. A \<^verbatim>\<open>Waiter\<close> is either
  the no-op waiter or the wait group of the goroutines started.
\<close>

type_synonym goroutine = "Committer \<times> Configuration \<times> Configuration"

datatype Waiter = noopWaiter | wg "goroutine list"

fun goroutines :: "Waiter \<Rightarrow> goroutine list" where
  "goroutines noopWaiter = []"
| "goroutines (wg gs) = gs"

definition Wrap :: "string \<Rightarrow> Configuration \<Rightarrow> wrapper" where
  "Wrap p c = \<lparr>cfg = c, path = p, deviceMap = None, folderMap = None, subs = [],
               requiresRestart = 0\<rparr>"

definition Subscribe :: "wrapper \<Rightarrow> Committer \<Rightarrow> wrapper" where
  "Subscribe w c = w\<lparr>subs := subs w @ [c]\<rparr>"

fun removeSub :: "Committer \<Rightarrow> Committer list \<Rightarrow> Committer list" where
  "removeSub c [] = []"
| "removeSub c (s # ss) = (if ptr s = ptr c then ss else s # removeSub c ss)"

definition Unsubscribe :: "wrapper \<Rightarrow> Committer \<Rightarrow> wrapper" where
  "Unsubscribe w c = w\<lparr>subs := removeSub c (subs w)\<rparr>"

definition RawCopy :: "wrapper \<Rightarrow> Configuration" where
  "RawCopy w = cfg w"

definition RequiresRestart :: "wrapper \<Rightarrow> bool" where
  "RequiresRestart w = (requiresRestart w \<noteq> 0)"

definition setRequiresRestart :: "wrapper \<Rightarrow> wrapper" where
  "setRequiresRestart w = w\<lparr>requiresRestart := 1\<rparr>"

definition notifyListener :: "wrapper \<Rightarrow> Committer \<Rightarrow> Configuration \<Rightarrow> Configuration \<Rightarrow> wrapper" where
  "notifyListener w sub from to =
     (if \<not> CommitConfiguration sub from to then setRequiresRestart w else w)"

definition notifyListeners :: "wrapper \<Rightarrow> Configuration \<Rightarrow> Configuration \<Rightarrow> Waiter" where
  "notifyListeners w from to = wg (map (\<lambda>sub. (sub, from, to)) (subs w))"

text \<open>The verification loop of \<^verbatim>\<open>replaceLocked\<close>: the first rejection is returned.\<close>

fun verifyLoop :: "Committer list \<Rightarrow> Configuration \<Rightarrow> Configuration \<Rightarrow> error option" where
  "verifyLoop [] from to = None"
| "verifyLoop (sub # ss) from to =
     (case VerifyConfiguration sub from to of
        Some e \<Rightarrow> Some e
      | None \<Rightarrow> verifyLoop ss from to)"

text \<open>
  \<^verbatim>\<open>Configuration.clean\<close> is declared outside the files at hand. It rewrites the
  configuration in place or fails, so it is a parameter \<open>clean\<close> of every operation that
  reaches \<^verbatim>\<open>replaceLocked\<close>: \<open>Inl\<close> the error, \<open>Inr\<close> the cleaned configuration.
  A result is the waiter, the error and the wrapper after the call.
\<close>

type_synonym cleaner = "Configuration \<Rightarrow> error + Configuration"
type_synonym result = "Waiter \<times> error option \<times> wrapper"

definition replaceLocked :: "cleaner \<Rightarrow> wrapper \<Rightarrow> Configuration \<Rightarrow> result" where
  "replaceLocked clean w to =
     (let from = cfg w in
      case clean to of
        Inl e \<Rightarrow> (noopWaiter, Some e, w)
      | Inr to' \<Rightarrow>
          (case verifyLoop (subs w) from to' of
             Some e \<Rightarrow> (noopWaiter, Some e, w)
           | None \<Rightarrow>
               let w' = w\<lparr>cfg := to', deviceMap := None, folderMap := None\<rparr>
               in (notifyListeners w' from to', None, w')))"

definition Replace :: "cleaner \<Rightarrow> wrapper \<Rightarrow> Configuration \<Rightarrow> result" where
  "Replace clean w c = replaceLocked clean w c"

text \<open>
  \<^verbatim>\<open>Devices\<close> and \<^verbatim>\<open>Folders\<close> fill their cache on first use and return it.
\<close>

definition buildDeviceMap :: "DeviceConfiguration list \<Rightarrow> (DeviceID \<rightharpoonup> DeviceConfiguration)" where
  "buildDeviceMap ds = foldl (\<lambda>m dev. m(dc_DeviceID dev \<mapsto> dev)) Map.empty ds"

definition Devices :: "wrapper \<Rightarrow> (DeviceID \<rightharpoonup> DeviceConfiguration) \<times> wrapper" where
  "Devices w =
     (case deviceMap w of
        None \<Rightarrow> (let m = buildDeviceMap (cfg_Devices (cfg w)) in (m, w\<lparr>deviceMap := Some m\<rparr>))
      | Some m \<Rightarrow> (m, w))"

definition buildFolderMap :: "FolderConfiguration list \<Rightarrow> (string \<rightharpoonup> FolderConfiguration)" where
  "buildFolderMap fs = foldl (\<lambda>m fld. m(fc_ID fld \<mapsto> fld)) Map.empty fs"

definition Folders :: "wrapper \<Rightarrow> (string \<rightharpoonup> FolderConfiguration) \<times> wrapper" where
  "Folders w =
     (case folderMap w of
        None \<Rightarrow> (let m = buildFolderMap (cfg_Folders (cfg w)) in (m, w\<lparr>folderMap := Some m\<rparr>))
      | Some m \<Rightarrow> (m, w))"

text \<open>
  \<^verbatim>\<open>SetDevices\<close>: each given device overwrites the first configured device with its
  identity, or is appended.
\<close>

fun setDevice1 :: "DeviceConfiguration list \<Rightarrow> DeviceConfiguration \<Rightarrow> DeviceConfiguration list" where
  "setDevice1 [] dev = [dev]"
| "setDevice1 (d # ds) dev =
     (if dc_DeviceID d = dc_DeviceID dev then dev # ds else d # setDevice1 ds dev)"

definition SetDevices_newCfg :: "wrapper \<Rightarrow> DeviceConfiguration list \<Rightarrow> Configuration" where
  "SetDevices_newCfg w devs = (cfg w)\<lparr>cfg_Devices := foldl setDevice1 (cfg_Devices (cfg w)) devs\<rparr>"

definition SetDevices :: "cleaner \<Rightarrow> wrapper \<Rightarrow> DeviceConfiguration list \<Rightarrow> result" where
  "SetDevices clean w devs = replaceLocked clean w (SetDevices_newCfg w devs)"

definition SetDevice :: "cleaner \<Rightarrow> wrapper \<Rightarrow> DeviceConfiguration \<Rightarrow> result" where
  "SetDevice clean w dev = SetDevices clean w [dev]"

text \<open>
  \<^verbatim>\<open>RemoveDevice\<close>: the first device with the identity is cut out and the result goes
  through \<^verbatim>\<open>replaceLocked\<close>; with no such device nothing happens and the call succeeds.
\<close>

fun removeDevice1 :: "DeviceID \<Rightarrow> DeviceConfiguration list \<Rightarrow> DeviceConfiguration list option" where
  "removeDevice1 i [] = None"
| "removeDevice1 i (d # ds) =
     (if dc_DeviceID d = i then Some ds else map_option (Cons d) (removeDevice1 i ds))"

definition RemoveDevice_newCfg :: "wrapper \<Rightarrow> DeviceID \<Rightarrow> Configuration option" where
  "RemoveDevice_newCfg w i =
     map_option (\<lambda>ds. (cfg w)\<lparr>cfg_Devices := ds\<rparr>) (removeDevice1 i (cfg_Devices (cfg w)))"

definition RemoveDevice :: "cleaner \<Rightarrow> wrapper \<Rightarrow> DeviceID \<Rightarrow> result" where
  "RemoveDevice clean w i =
     (case RemoveDevice_newCfg w i of
        Some newCfg \<Rightarrow> replaceLocked clean w newCfg
      | None \<Rightarrow> (noopWaiter, None, w))"

text \<open>\<^verbatim>\<open>SetFolder\<close>: overwrite the first folder with the same ID, or append.\<close>

fun setFolder1 :: "FolderConfiguration list \<Rightarrow> FolderConfiguration \<Rightarrow> FolderConfiguration list" where
  "setFolder1 [] fld = [fld]"
| "setFolder1 (f # fs) fld =
     (if fc_ID f = fc_ID fld then fld # fs else f # setFolder1 fs fld)"

definition SetFolder_newCfg :: "wrapper \<Rightarrow> FolderConfiguration \<Rightarrow> Configuration" where
  "SetFolder_newCfg w fld = (cfg w)\<lparr>cfg_Folders := setFolder1 (cfg_Folders (cfg w)) fld\<rparr>"

definition SetFolder :: "cleaner \<Rightarrow> wrapper \<Rightarrow> FolderConfiguration \<Rightarrow> result" where
  "SetFolder clean w fld = replaceLocked clean w (SetFolder_newCfg w fld)"

definition Options :: "wrapper \<Rightarrow> OptionsConfiguration" where
  "Options w = cfg_Options (cfg w)"

definition SetOptions_newCfg :: "wrapper \<Rightarrow> OptionsConfiguration \<Rightarrow> Configuration" where
  "SetOptions_newCfg w opts = (cfg w)\<lparr>cfg_Options := opts\<rparr>"

definition SetOptions :: "cleaner \<Rightarrow> wrapper \<Rightarrow> OptionsConfiguration \<Rightarrow> result" where
  "SetOptions clean w opts = replaceLocked clean w (SetOptions_newCfg w opts)"

definition GUI :: "wrapper \<Rightarrow> GUIConfiguration" where
  "GUI w = cfg_GUI (cfg w)"

definition SetGUI_newCfg :: "wrapper \<Rightarrow> GUIConfiguration \<Rightarrow> Configuration" where
  "SetGUI_newCfg w gui = (cfg w)\<lparr>cfg_GUI := gui\<rparr>"

definition SetGUI :: "cleaner \<Rightarrow> wrapper \<Rightarrow> GUIConfiguration \<Rightarrow> result" where
  "SetGUI clean w gui = replaceLocked clean w (SetGUI_newCfg w gui)"

definition Device :: "wrapper \<Rightarrow> DeviceID \<Rightarrow> DeviceConfiguration option" where
  "Device w i = find (\<lambda>device. dc_DeviceID device = i) (cfg_Devices (cfg w))"

definition Folder :: "wrapper \<Rightarrow> string \<Rightarrow> FolderConfiguration option" where
  "Folder w i = find (\<lambda>folder. fc_ID folder = i) (cfg_Folders (cfg w))"

definition FolderList :: "wrapper \<Rightarrow> FolderConfiguration list" where
  "FolderList w = cfg_Folders (cfg w)"

text \<open>
  The pending lists are edited in place, under the mutex and without going through
  \<^verbatim>\<open>replaceLocked\<close>. \<open>now\<close> is \<^verbatim>\<open>time.Now().Round(time.Second)\<close>.
\<close>

fun updatePendingDevices :: "ObservedDevice list \<Rightarrow> DeviceID \<Rightarrow> string \<Rightarrow> string \<Rightarrow> int \<Rightarrow> ObservedDevice list" where
  "updatePendingDevices [] device name address now =
     [\<lparr>od_Time = now, od_ID = device, od_Name = name, od_Address = address\<rparr>]"
| "updatePendingDevices (p # ps) device name address now =
     (if od_ID p = device
      then p\<lparr>od_Time := now, od_Name := name, od_Address := address\<rparr> # ps
      else p # updatePendingDevices ps device name address now)"

definition AddOrUpdatePendingDevice :: "wrapper \<Rightarrow> DeviceID \<Rightarrow> string \<Rightarrow> string \<Rightarrow> int \<Rightarrow> wrapper" where
  "AddOrUpdatePendingDevice w device name address now =
     w\<lparr>cfg := (cfg w)\<lparr>cfg_PendingDevices :=
          updatePendingDevices (cfg_PendingDevices (cfg w)) device name address now\<rparr>\<rparr>"

text \<open>The inner loop of \<^verbatim>\<open>AddOrUpdatePendingFolder\<close>, over one device's pending folders.\<close>

fun updatePendingFolders :: "ObservedFolder list \<Rightarrow> string \<Rightarrow> string \<Rightarrow> int \<Rightarrow> ObservedFolder list" where
  "updatePendingFolders [] i label now = [\<lparr>of_Time = now, of_ID = i, of_Label = label\<rparr>]"
| "updatePendingFolders (p # ps) i label now =
     (if of_ID p = i
      then p\<lparr>of_Label := label, of_Time := now\<rparr> # ps
      else p # updatePendingFolders ps i label now)"

text \<open>
  The outer loop, over the devices: the first device with the identity is edited and the
  loop returns; when the loop runs out, \<open>None\<close> (the source panics).
\<close>

fun pendingFolderDevices :: "DeviceConfiguration list \<Rightarrow> string \<Rightarrow> string \<Rightarrow> DeviceID \<Rightarrow> int \<Rightarrow> DeviceConfiguration list option" where
  "pendingFolderDevices [] i label device now = None"
| "pendingFolderDevices (d # ds) i label device now =
     (if dc_DeviceID d = device
      then Some (d\<lparr>dc_PendingFolders := updatePendingFolders (dc_PendingFolders d) i label now\<rparr> # ds)
      else map_option (Cons d) (pendingFolderDevices ds i label device now))"

definition AddOrUpdatePendingFolder :: "wrapper \<Rightarrow> string \<Rightarrow> string \<Rightarrow> DeviceID \<Rightarrow> int \<Rightarrow> panic + wrapper" where
  "AddOrUpdatePendingFolder w i label device now =
     (case pendingFolderDevices (cfg_Devices (cfg w)) i label device now of
        None \<Rightarrow> Inl (Panic ''bug: adding pending folder for non-existing device'')
      | Some ds \<Rightarrow> Inr (w\<lparr>cfg := (cfg w)\<lparr>cfg_Devices := ds\<rparr>\<rparr>))"

definition IgnoredDevice :: "wrapper \<Rightarrow> DeviceID \<Rightarrow> bool" where
  "IgnoredDevice w i = list_ex (\<lambda>device. od_ID device = i) (cfg_IgnoredDevices (cfg w))"

definition MyName :: "wrapper \<Rightarrow> string" where
  "MyName w = (case Device w (cfg_MyID (cfg w)) of Some c \<Rightarrow> dc_Name c | None \<Rightarrow> [])"

subsection \<open>Configuration transitions and the life of a wrapper\<close>

text \<open>
  The seven methods that propose a new configuration, as one datatype, with the
  configuration each proposes (\<^verbatim>\<open>RemoveDevice\<close> of an unknown device proposes none)
  and the dispatch to the method.
\<close>

datatype transition =
    DoReplace Configuration
  | DoSetFolder FolderConfiguration
  | DoSetDevice DeviceConfiguration
  | DoSetDevices "DeviceConfiguration list"
  | DoSetOptions OptionsConfiguration
  | DoSetGUI GUIConfiguration
  | DoRemoveDevice DeviceID

fun proposed :: "wrapper \<Rightarrow> transition \<Rightarrow> Configuration option" where
  "proposed w (DoReplace c) = Some c"
| "proposed w (DoSetFolder fld) = Some (SetFolder_newCfg w fld)"
| "proposed w (DoSetDevice dev) = Some (SetDevices_newCfg w [dev])"
| "proposed w (DoSetDevices devs) = Some (SetDevices_newCfg w devs)"
| "proposed w (DoSetOptions opts) = Some (SetOptions_newCfg w opts)"
| "proposed w (DoSetGUI gui) = Some (SetGUI_newCfg w gui)"
| "proposed w (DoRemoveDevice i) = RemoveDevice_newCfg w i"

fun perform :: "cleaner \<Rightarrow> wrapper \<Rightarrow> transition \<Rightarrow> result" where
  "perform clean w (DoReplace c) = Replace clean w c"
| "perform clean w (DoSetFolder fld) = SetFolder clean w fld"
| "perform clean w (DoSetDevice dev) = SetDevice clean w dev"
| "perform clean w (DoSetDevices devs) = SetDevices clean w devs"
| "perform clean w (DoSetOptions opts) = SetOptions clean w opts"
| "perform clean w (DoSetGUI gui) = SetGUI clean w gui"
| "perform clean w (DoRemoveDevice i) = RemoveDevice clean w i"

text \<open>
  Everything that can happen to a wrapper after \<^verbatim>\<open>Wrap\<close>: a transition, a change of
  the subscriber list, a cache fill, an edit of the pending lists, or the run of one
  notification goroutine started earlier. The read-only methods and \<^verbatim>\<open>Save\<close> leave the
  wrapper as it is and are not listed. The goroutines started and not yet run travel with
  the wrapper; \<open>RunGoroutine k\<close> runs the \<open>k\<close>-th of them, so any interleaving of commits
  and other calls is a list of actions. A panic ends the wrapper's life: \<open>None\<close>.
\<close>

datatype action =
    Transition transition
  | DoSubscribe Committer
  | DoUnsubscribe Committer
  | DoDevices
  | DoFolders
  | DoAddOrUpdatePendingDevice DeviceID string string int
  | DoAddOrUpdatePendingFolder string string DeviceID int
  | RunGoroutine nat

type_synonym system = "wrapper \<times> goroutine list"

fun step :: "cleaner \<Rightarrow> system \<Rightarrow> action \<Rightarrow> system option" where
  "step clean (w, gs) (Transition t) =
     (case perform clean w t of (wt, _, w') \<Rightarrow> Some (w', gs @ goroutines wt))"
| "step clean (w, gs) (DoSubscribe c) = Some (Subscribe w c, gs)"
| "step clean (w, gs) (DoUnsubscribe c) = Some (Unsubscribe w c, gs)"
| "step clean (w, gs) DoDevices = Some (snd (Devices w), gs)"
| "step clean (w, gs) DoFolders = Some (snd (Folders w), gs)"
| "step clean (w, gs) (DoAddOrUpdatePendingDevice device name address now) =
     Some (AddOrUpdatePendingDevice w device name address now, gs)"
| "step clean (w, gs) (DoAddOrUpdatePendingFolder i label device now) =
     (case AddOrUpdatePendingFolder w i label device now of
        Inl p \<Rightarrow> None
      | Inr w' \<Rightarrow> Some (w', gs))"
| "step clean (w, gs) (RunGoroutine k) =
     (if k < length gs
      then (case gs ! k of (sub, from, to) \<Rightarrow>
              Some (notifyListener w sub from to, take k gs @ drop (Suc k) gs))
      else Some (w, gs))"

fun steps :: "cleaner \<Rightarrow> system \<Rightarrow> action list \<Rightarrow> system option" where
  "steps clean s [] = Some s"
| "steps clean s (a # as) =
     (case step clean s a of None \<Rightarrow> None | Some s' \<Rightarrow> steps clean s' as)"

text \<open>\<^verbatim>\<open>Wait\<close> on a waiter returns when every goroutine of it has run.\<close>

definition Wait :: "wrapper \<Rightarrow> Waiter \<Rightarrow> wrapper" where
  "Wait w wt = foldl (\<lambda>w' (sub, from, to). notifyListener w' sub from to) w (goroutines wt)"

text \<open>
  What \<^verbatim>\<open>AddOrUpdatePendingFolder\<close> is said to do to one device's pending folders: a
  new entry at the end when no entry has the ID, else label and time of the first entry
  with the ID rewritten.
\<close>

definition pendingEdited :: "ObservedFolder list \<Rightarrow> string \<Rightarrow> string \<Rightarrow> int \<Rightarrow> ObservedFolder list \<Rightarrow> bool" where
  "pendingEdited old i label now new =
     ((i \<notin> of_ID ` set old \<and> new = old @ [\<lparr>of_Time = now, of_ID = i, of_Label = label\<rparr>])
      \<or> (\<exists>m<length old. of_ID (old ! m) = i \<and> (\<forall>j<m. of_ID (old ! j) \<noteq> i) \<and>
            new = old[m := (old ! m)\<lparr>of_Label := label, of_Time := now\<rparr>]))"

section \<open>Values for worked examples\<close>

text \<open>
  Zero values of the Go structs, three device identities to stand for the ones the tests
  use, a cleaner that accepts everything, and two subscribers: one that rejects every
  configuration, one that accepts every configuration and cannot apply it.
\<close>

definition EmptyDeviceID :: DeviceID where "EmptyDeviceID = replicate 32 0"
definition myID :: DeviceID where "myID = 9 # replicate 31 0"
definition device1 :: DeviceID where "device1 = 1 # replicate 31 0"
definition device2 :: DeviceID where "device2 = 2 # replicate 31 0"

definition zeroDevice :: "DeviceID \<Rightarrow> DeviceConfiguration" where
  "zeroDevice i = \<lparr>dc_DeviceID = i, dc_Name = [], dc_Introducer = False,
     dc_SkipIntroductionRemovals = False, dc_IntroducedBy = EmptyDeviceID,
     dc_AutoAcceptFolders = False, dc_PendingFolders = []\<rparr>"

definition zeroFolder :: "string \<Rightarrow> FolderConfiguration" where
  "zeroFolder i = \<lparr>fc_ID = i, fc_Label = [], fc_Path = [], fc_Devices = [], fc_Paused = False\<rparr>"

definition zeroConfiguration :: Configuration where
  "zeroConfiguration = \<lparr>cfg_MyID = EmptyDeviceID, cfg_Folders = [], cfg_Devices = [],
     cfg_GUI = \<lparr>gui_Enabled = False, gui_InsecureAdminAccess = False\<rparr>,
     cfg_Options = \<lparr>opt_ListenAddresses = [], opt_GlobalAnnServers = [], opt_StunServers = [],
                    opt_DefaultFolderPath = []\<rparr>,
     cfg_IgnoredDevices = [], cfg_PendingDevices = []\<rparr>"

definition cleanOK :: cleaner where "cleanOK c = Inr c"

definition rejecter :: Committer where
  "rejecter = \<lparr>ptr = 1, VerifyConfiguration = (\<lambda>from to. Some (Err ''rejected'')),
               CommitConfiguration = (\<lambda>from to. True), String = ''rejecter''\<rparr>"

definition restarter :: Committer where
  "restarter = \<lparr>ptr = 2, VerifyConfiguration = (\<lambda>from to. None),
                CommitConfiguration = (\<lambda>from to. False), String = ''restarter''\<rparr>"

definition oneDeviceCfg :: Configuration where
  "oneDeviceCfg = zeroConfiguration\<lparr>cfg_Devices := [zeroDevice device1]\<rparr>"

definition rejectingWrapper :: wrapper where
  "rejectingWrapper = Subscribe (Wrap ''config.xml'' oneDeviceCfg) rejecter"

definition restartingWrapper :: wrapper where
  "restartingWrapper = Subscribe (Wrap ''config.xml'' oneDeviceCfg) restarter"

section \<open>Short identities and application start-up (part\_001)\<close>

text \<open>
  Modelled from the spec: \<^verbatim>\<open>DeviceID.Short\<close>, declared in the protocol package, which is
  not among the files at hand. The spec: a ShortID is the first 8 bytes of the DeviceID
  reinterpreted as a 64-bit integer. The bytes are taken most significant first.
\<close>

definition Short :: "DeviceID \<Rightarrow> ShortID" where
  "Short n =
     (ucast (n ! 7) OR push_bit 8 (ucast (n ! 6)) OR push_bit 16 (ucast (n ! 5))
      OR push_bit 24 (ucast (n ! 4)) OR push_bit 32 (ucast (n ! 3))
      OR push_bit 40 (ucast (n ! 2)) OR push_bit 48 (ucast (n ! 1))
      OR push_bit 56 (ucast (n ! 0)))"

text \<open>
  \<^verbatim>\<open>checkShortIDs\<close> ranges over the keys of the map \<^verbatim>\<open>cfg.Devices()\<close>. Go yields every
  key once, in no fixed order; the argument is the keys in the order of one such run.
  \<open>exists\<close> is the map the loop fills.
\<close>

fun checkShortIDs_loop :: "(ShortID \<rightharpoonup> DeviceID) \<Rightarrow> DeviceID list \<Rightarrow> error option" where
  "checkShortIDs_loop exists [] = None"
| "checkShortIDs_loop exists (deviceID # rest) =
     (case exists (Short deviceID) of
        Some otherID \<Rightarrow> Some (ShortIDConflict deviceID otherID)
      | None \<Rightarrow> checkShortIDs_loop (exists(Short deviceID \<mapsto> deviceID)) rest)"

definition checkShortIDs :: "DeviceID list \<Rightarrow> error option" where
  "checkShortIDs keys = checkShortIDs_loop Map.empty keys"

text \<open>
  The start-up options (\<^verbatim>\<open>Options\<close> of the application package; the name is taken by
  the wrapper's accessor here). \<open>AuditWriter\<close> says whether the writer is non-nil.
\<close>

record AppOptions =
  AssetDir :: string
  AuditWriter :: bool
  DeadlockTimeoutS :: int
  NoUpgrade :: bool
  ProfilerURL :: string
  ResetDeltaIdxs :: bool
  Verbose :: bool

text \<open>
  What \<^verbatim>\<open>startup\<close> does to its collaborators, in the order it does it. The model keeps
  the calls on the service supervisor, the database and the model object, and the
  warnings; plain log lines are left out.
\<close>

datatype event =
    ServeBackground
  | AddService string
  | LogEvent string
  | Warn error
  | StartProfiler string
  | CpuBench
  | DropDeltaIndexIDs
  | DropFolder string
  | PutPrevVersion string
  | NewModel
  | StartDeadlockDetector int
  | CreateRoot string
  | AddFolder string
  | StartFolder string
  | Discovery string
  | UsageReporting string
  | SetLowPriority
  | GoRun

fun startsFolder :: "event \<Rightarrow> bool" where
  "startsFolder (AddFolder f) = True"
| "startsFolder (StartFolder f) = True"
| "startsFolder NewModel = True"
| "startsFolder ev = False"

text \<open>
  What \<^verbatim>\<open>startup\<close> reads: the options, the wrapper, the key orders of the two map
  ranges, the answers of the database layer and of the API service, the build constants.
  Between the folder loop and the GUI set-up the source starts discovery and usage
  reporting; these steps have no error return and are given as the events they cause
  (\<open>env_afterFolders\<close>); their writes to the options, and the cache fills of
  \<^verbatim>\<open>Devices\<close> and \<^verbatim>\<open>Folders\<close>, are not followed.
\<close>

record environment =
  env_opts :: AppOptions
  env_cfg :: wrapper
  env_deviceKeys :: "DeviceID list"
  env_folderKeys :: "string list"
  env_UpdateSchema :: "error option"
  env_ListFolders :: "string list"
  env_prevVersion :: string
  env_Version :: string
  env_IsRelease :: bool
  env_IsBeta :: bool
  env_afterFolders :: "event list"
  env_WaitForStart :: "error option"
  env_SetLowPriority :: bool

definition setupGUI :: "environment \<Rightarrow> error option \<times> event list" where
  "setupGUI env =
     (if \<not> gui_Enabled (GUI (env_cfg env)) then (None, [])
      else (env_WaitForStart env, [AddService ''cpu'', AddService ''summary'', AddService ''api'']))"

text \<open>\<^verbatim>\<open>strings.Split(v, "-")[0]\<close>: the part of \<open>v\<close> before the first dash.\<close>

definition releasePart :: "string \<Rightarrow> string" where
  "releasePart v = takeWhile (\<lambda>c. c \<noteq> CHR ''-'') v"

definition folderEvents :: "FolderConfiguration \<Rightarrow> event list" where
  "folderEvents folderCfg =
     (if fc_Paused folderCfg then [CreateRoot (fc_ID folderCfg)]
      else [AddFolder (fc_ID folderCfg), StartFolder (fc_ID folderCfg)])"

definition startup :: "environment \<Rightarrow> error option \<times> event list" where
  "startup env =
     (let opts = env_opts env;
          tr1 = [ServeBackground]
                @ (if AuditWriter opts then [AddService ''audit''] else [])
                @ (if Verbose opts then [AddService ''verbose''] else [])
                @ [LogEvent ''Starting'']
      in case checkShortIDs (env_deviceKeys env) of
           Some e \<Rightarrow> (Some e, tr1 @ [Warn e])
         | None \<Rightarrow>
             let tr2 = tr1
                   @ (if length (ProfilerURL opts) > 0 then [StartProfiler (ProfilerURL opts)] else [])
                   @ [CpuBench]
             in case env_UpdateSchema env of
                  Some e \<Rightarrow> (Some e, tr2 @ [Warn e])
                | None \<Rightarrow>
                    let folders = fst (Folders (env_cfg env));
                        tr3 = tr2
                          @ (if ResetDeltaIdxs opts then [DropDeltaIndexIDs] else [])
                          @ map DropFolder (filter (\<lambda>folder. folders folder = None) (env_ListFolders env))
                          @ (if releasePart (env_prevVersion env) \<noteq> releasePart (env_Version env)
                             then [DropDeltaIndexIDs, PutPrevVersion (env_Version env)] else [])
                          @ [NewModel]
                          @ (if DeadlockTimeoutS opts > 0
                             then [StartDeadlockDetector (DeadlockTimeoutS opts)]
                             else if \<not> env_IsRelease env \<or> env_IsBeta env
                             then [StartDeadlockDetector (20 * 60)] else [])
                          @ concat (map folderEvents (List.map_filter folders (env_folderKeys env)))
                          @ [AddService ''model'', AddService ''discovery'', AddService ''connections'']
                          @ env_afterFolders env
                          @ [AddService ''usageReporting'']
                    in case setupGUI env of
                         (Some e, tr) \<Rightarrow> (Some e, tr3 @ tr @ [Warn e])
                       | (None, tr) \<Rightarrow>
                           (None, tr3 @ tr @ [LogEvent ''StartupComplete'']
                                  @ (if env_SetLowPriority env then [SetLowPriority] else [])))"

text \<open>
  \<^verbatim>\<open>Start\<close>: once only; a failed start-up stops the application with \<^verbatim>\<open>ExitError\<close>,
  a successful one starts the goroutine \<^verbatim>\<open>run\<close>.
\<close>

definition Start :: "environment \<Rightarrow> App \<Rightarrow> panic + (App \<times> event list)" where
  "Start env a =
     (if startOnce a then Inr (a, [])
      else case startup env of
             (Some e, tr) \<Rightarrow>
               (case stopWithErr a ExitError (Some e) of
                  Inl p \<Rightarrow> Inl p
                | Inr (st, a') \<Rightarrow> Inr (a'\<lparr>startOnce := True\<rparr>, tr))
           | (None, tr) \<Rightarrow> Inr (a\<lparr>startOnce := True\<rparr>, tr @ [GoRun]))"

text \<open>A configuration with two devices whose identities share the first eight bytes.\<close>

definition device1' :: DeviceID where "device1' = take 8 device1 @ replicate 23 0 @ [1]"

definition clashCfg :: Configuration where
  "clashCfg = zeroConfiguration\<lparr>cfg_Devices := [zeroDevice device1, zeroDevice device1'],
     cfg_Folders := [zeroFolder ''default'']\<rparr>"

definition clashEnv :: environment where
  "clashEnv = \<lparr>env_opts = \<lparr>AssetDir = [], AuditWriter = False, DeadlockTimeoutS = 0,
        NoUpgrade = False, ProfilerURL = [], ResetDeltaIdxs = False, Verbose = False\<rparr>,
     env_cfg = Wrap ''config.xml'' clashCfg,
     env_deviceKeys = [device1', device1], env_folderKeys = [''default''],
     env_UpdateSchema = None, env_ListFolders = [], env_prevVersion = [], env_Version = ''v1.2.0'',
     env_IsRelease = True, env_IsBeta = False, env_afterFolders = [],
     env_WaitForStart = None, env_SetLowPriority = False\<rparr>"

section \<open>The application object: sequences of calls (part\_001)\<close>

text \<open>
  The fields \<^verbatim>\<open>exitStatus\<close>, \<^verbatim>\<open>err\<close> and \<^verbatim>\<open>stop\<close> are written only inside
  \<^verbatim>\<open>stopOnce.Do\<close>. So as long as no stop call has been made the application is
  \<open>running\<close>: the once is not done, the channel is open and the status is the zero value
  \<^verbatim>\<open>ExitSuccess\<close>; whether \<^verbatim>\<open>Start\<close> has been called plays no part. \<open>afterStop a r e\<close>
  is \<open>a\<close> with status and error recorded and the channel closed.
\<close>

definition running :: "App \<Rightarrow> bool" where
  "running a = (\<not> stopOnce a \<and> \<not> stop a \<and> exitStatus a = ExitSuccess)"

definition afterStop :: "App \<Rightarrow> ExitStatus \<Rightarrow> error option \<Rightarrow> App" where
  "afterStop a r e = a\<lparr>exitStatus := r, err := e, stopOnce := True, stop := True\<rparr>"

text \<open>
  A stop call is made through \<^verbatim>\<open>Stop\<close>, with a status, or through \<^verbatim>\<open>stopWithErr\<close>,
  with a status and an error.
\<close>

datatype stopCall = ViaStop ExitStatus | ViaStopWithErr ExitStatus "error option"

fun callStop :: "App \<Rightarrow> stopCall \<Rightarrow> panic + (ExitStatus \<times> App)" where
  "callStop a (ViaStop r) = Stop a r"
| "callStop a (ViaStopWithErr r e) = stopWithErr a r e"

fun reasonOf :: "stopCall \<Rightarrow> ExitStatus" where
  "reasonOf (ViaStop r) = r"
| "reasonOf (ViaStopWithErr r e) = r"

fun errOf :: "stopCall \<Rightarrow> error option" where
  "errOf (ViaStop r) = None"
| "errOf (ViaStopWithErr r e) = e"

text \<open>
  Any sequence of \<^verbatim>\<open>Start\<close> and stop calls, one after the other as the two
  \<^verbatim>\<open>sync.Once\<close> values serialise them. The result collects the status that each stop call
  returned.
\<close>

datatype appCall = CallStart environment | CallStop stopCall

fun isStop :: "appCall \<Rightarrow> bool" where
  "isStop (CallStop c) = True"
| "isStop (CallStart env) = False"

fun appCalls :: "App \<Rightarrow> appCall list \<Rightarrow> panic + (ExitStatus list \<times> App)" where
  "appCalls a [] = Inr ([], a)"
| "appCalls a (CallStart env # cs) =
     (case Start env a of
        Inl p \<Rightarrow> Inl p
      | Inr (a', tr) \<Rightarrow> appCalls a' cs)"
| "appCalls a (CallStop c # cs) =
     (case callStop a c of
        Inl p \<Rightarrow> Inl p
      | Inr (ret, a') \<Rightarrow>
          (case appCalls a' cs of
             Inl p \<Rightarrow> Inl p
           | Inr (rets, a'') \<Rightarrow> Inr (ret # rets, a'')))"

text \<open>An environment in which start-up succeeds, for the worked examples.\<close>

definition quietEnv :: environment where
  "quietEnv = clashEnv\<lparr>env_deviceKeys := [device1]\<rparr>"

section \<open>The model object: requests (lib/model, by its tests in part\_002)\<close>

text \<open>
  The file that defines the model object is not among the files at hand; its tests are.
  The definitions of this and the next sections are written from the spec and say so.

  The local disk: per folder ID, the files by folder-relative name.
\<close>

type_synonym disk = "string \<Rightarrow> string \<rightharpoonup> 8 word list"

text \<open>
  Names on the disk are folder-relative and free of NUL: no file is stored under a name
  with a leading slash or a NUL byte.
\<close>

definition diskNamesOK :: "disk \<Rightarrow> bool" where
  "diskNamesOK d =
     (\<forall>folder name. d folder name \<noteq> None \<longrightarrow> take 1 name \<noteq> ''/'' \<and> CHR 0x00 \<notin> set name)"

text \<open>The elements of a slash-separated name.\<close>

fun splitPath :: "string \<Rightarrow> string list" where
  "splitPath [] = [[]]"
| "splitPath (c # cs) =
     (if c = CHR ''/'' then [] # splitPath cs
      else (case splitPath cs of
              [] \<Rightarrow> [[c]]
            | x # xs \<Rightarrow> (c # x) # xs))"

text \<open>
  Modelled from the spec: path safety at intake. The spec (4.7 and 8): absolute paths and
  \<^verbatim>\<open>..\<close> components are rejected; paths containing \<^verbatim>\<open>..\<close>, a leading slash or NUL are
  rejected.
\<close>

definition unsafeName :: "string \<Rightarrow> bool" where
  "unsafeName name =
     (''..'' \<in> set (splitPath name) \<or> take 1 name = ''/'' \<or> CHR 0x00 \<in> set name)"

definition SharedWith :: "FolderConfiguration \<Rightarrow> DeviceID \<Rightarrow> bool" where
  "SharedWith f device = list_ex (\<lambda>dev. fd_DeviceID dev = device) (fc_Devices f)"

text \<open>
  Modelled from the spec: \<^verbatim>\<open>Model.Request\<close>, which the tests call as
  \<^verbatim>\<open>m.Request(device, folder, name, size, offset, hash, weakHash, fromTemporary)\<close>. The
  spec (4.6): validate folder membership and path safety; read from local disk; return
  data or a typed error (generic, no-such-file, invalid-file). The spec (8): requests with
  negative offset, zero size, or size exceeding the block are rejected; the test also
  passes a negative size and expects an error. Which of the three error kinds answers
  which rejection is not said; the choice below is one reading and no statement depends
  on it. Hash checking and temporary files are left out. The requested size is \<open>sz\<close>.
\<close>

definition Request :: "Configuration \<Rightarrow> disk \<Rightarrow> DeviceID \<Rightarrow> string \<Rightarrow> string \<Rightarrow> int \<Rightarrow> int \<Rightarrow> error + 8 word list" where
  "Request c d deviceID folder name sz offset =
     (if sz \<le> 0 \<or> offset < 0 then Inl ErrInvalid
      else case find (\<lambda>f. fc_ID f = folder) (cfg_Folders c) of
             None \<Rightarrow> Inl ErrGeneric
           | Some f \<Rightarrow>
               if \<not> SharedWith f deviceID then Inl ErrGeneric
               else if unsafeName name then Inl ErrInvalid
               else case d folder name of
                      None \<Rightarrow> Inl ErrNoSuchFile
                    | Some content \<Rightarrow>
                        if int (length content) < offset + sz then Inl ErrInvalid
                        else Inr (take (nat sz) (drop (nat offset) content)))"

text \<open>
  The fixture of \<^verbatim>\<open>TestRequest\<close>: the folder \<^verbatim>\<open>default\<close>, shared with the first device
  only, holding the file \<^verbatim>\<open>foo\<close> of seven bytes.
\<close>

definition bytes :: "string \<Rightarrow> 8 word list" where
  "bytes s = map (\<lambda>c. of_nat (of_char c)) s"

definition defaultCfg :: Configuration where
  "defaultCfg = zeroConfiguration\<lparr>cfg_Devices := [zeroDevice device1],
     cfg_Folders := [(zeroFolder ''default'')\<lparr>fc_Devices :=
        [\<lparr>fd_DeviceID = device1, fd_IntroducedBy = EmptyDeviceID\<rparr>]\<rparr>]\<rparr>"

definition defaultDisk :: disk where
  "defaultDisk folder =
     (if folder = ''default'' then [''foo'' \<mapsto> bytes ''foobar'' @ [10]] else Map.empty)"

section \<open>The model object: auto-accepted folders\<close>

text \<open>The folder entry of a cluster configuration message, and its device entries.\<close>

record Device =
  pd_ID :: DeviceID
  pd_Name :: string
  pd_Introducer :: bool
  pd_SkipIntroductionRemovals :: bool

record ProtocolFolder =
  pf_ID :: string
  pf_Label :: string
  pf_Devices :: "Device list"

record ClusterConfig =
  cc_Folders :: "ProtocolFolder list"

text \<open>
  Modelled from the spec: the auto-accept step of the \<^verbatim>\<open>ClusterConfig\<close> dispatch, for a
  folder ID that is unknown locally. The spec (4.6): if the local configuration flags the
  peer with \<^verbatim>\<open>AutoAcceptFolders\<close>, an unknown folder ID causes a new folder to be created
  locally, preferring label over id for the on-disk directory name, falling back to id on
  conflict; (4.7) names are sanitized when a local path is generated from a remote label.
  What happens when both names are taken is fixed by the test
  \<^verbatim>\<open>TestAutoAcceptNameConflict\<close>: the folder is not shared. \<open>sanitizePath\<close> (tested in
  part\_002, defined elsewhere) and \<open>exists\<close> (is there a file system entry of that name
  under the default folder path) are parameters. The result is the folder configuration
  handed to \<^verbatim>\<open>SetFolder\<close>, if any. For a folder ID that is known locally the spec says
  nothing and the tests decide: a folder not yet shared with the peer is shared with it,
  its path untouched (\<^verbatim>\<open>TestAutoAcceptExistingFolder\<close>,
  \<^verbatim>\<open>TestAutoAcceptNewAndExistingFolder\<close>); a folder already shared with the peer is left
  alone (\<^verbatim>\<open>TestAutoAcceptAlreadyShared\<close>).
\<close>

definition newFolderConfiguration :: "string \<Rightarrow> string \<Rightarrow> string \<Rightarrow> DeviceID \<Rightarrow> FolderConfiguration" where
  "newFolderConfiguration i label p device =
     \<lparr>fc_ID = i, fc_Label = label, fc_Path = p,
      fc_Devices = [\<lparr>fd_DeviceID = device, fd_IntroducedBy = EmptyDeviceID\<rparr>],
      fc_Paused = False\<rparr>"

definition joinPath :: "string \<Rightarrow> string \<Rightarrow> string" where
  "joinPath dir name = dir @ ''/'' @ name"

definition autoAcceptFolder :: "(string \<Rightarrow> string) \<Rightarrow> (string \<Rightarrow> bool) \<Rightarrow> wrapper \<Rightarrow> DeviceConfiguration \<Rightarrow> ProtocolFolder \<Rightarrow> FolderConfiguration option" where
  "autoAcceptFolder sanitizePath exists w deviceCfg folder =
     (if \<not> dc_AutoAcceptFolders deviceCfg then None
      else case Folder w (pf_ID folder) of
             Some known \<Rightarrow>
               if SharedWith known (dc_DeviceID deviceCfg) then None
               else Some (known\<lparr>fc_Devices := fc_Devices known
                            @ [\<lparr>fd_DeviceID = dc_DeviceID deviceCfg,
                                fd_IntroducedBy = EmptyDeviceID\<rparr>]\<rparr>)
           | None \<Rightarrow>
               (case find (\<lambda>p. \<not> exists p) [sanitizePath (pf_Label folder), sanitizePath (pf_ID folder)] of
                  None \<Rightarrow> None
                | Some p \<Rightarrow>
                    Some (newFolderConfiguration (pf_ID folder) (pf_Label folder)
                            (joinPath (opt_DefaultFolderPath (Options w)) p)
                            (dc_DeviceID deviceCfg))))"

definition handleAutoAccepts :: "cleaner \<Rightarrow> (string \<Rightarrow> string) \<Rightarrow> (string \<Rightarrow> bool) \<Rightarrow> wrapper \<Rightarrow> DeviceConfiguration \<Rightarrow> ProtocolFolder \<Rightarrow> result" where
  "handleAutoAccepts clean sanitizePath exists w deviceCfg folder =
     (case autoAcceptFolder sanitizePath exists w deviceCfg folder of
        None \<Rightarrow> (noopWaiter, None, w)
      | Some fcfg \<Rightarrow> SetFolder clean w fcfg)"

text \<open>The fixture of the auto-accept tests: one device, flagged, and no folder.\<close>

definition defaultAutoAcceptCfg :: Configuration where
  "defaultAutoAcceptCfg =
     zeroConfiguration\<lparr>cfg_Devices := [(zeroDevice device1)\<lparr>dc_AutoAcceptFolders := True\<rparr>]\<rparr>"

text \<open>
  For the worked examples: names that need no sanitizing, a file system where the label
  and the ID of the offered folder are both taken, and the offered folder.
\<close>

definition keepName :: "string \<Rightarrow> string" where
  "keepName p = p"

definition bothTaken :: "string \<Rightarrow> bool" where
  "bothTaken p = (p = ''label'' \<or> p = ''id'')"

definition labelTaken :: "string \<Rightarrow> bool" where
  "labelTaken p = (p = ''label'')"

definition offeredFolder :: ProtocolFolder where
  "offeredFolder = \<lparr>pf_ID = ''id'', pf_Label = ''label'', pf_Devices = []\<rparr>"

definition autoAcceptDevice :: DeviceConfiguration where
  "autoAcceptDevice = (zeroDevice device1)\<lparr>dc_AutoAcceptFolders := True\<rparr>"

text \<open>
  The fixture of \<^verbatim>\<open>TestAutoAcceptExistingFolder\<close>: the offered folder is known, with a
  path of its own, and shared with nobody.
\<close>

definition existingFolderCfg :: Configuration where
  "existingFolderCfg =
     defaultAutoAcceptCfg\<lparr>cfg_Folders := [(zeroFolder ''id'')\<lparr>fc_Path := ''idOther''\<rparr>]\<rparr>"

section \<open>The scanner: modification time window\<close>

text \<open>
  Modelled from the spec: the version vector (protocol package, not at hand). The spec (3):
  an ordered sequence of (shortID, counter) pairs, kept sorted by shortID; \<open>update(s)\<close>
  bumps the counter of \<open>s\<close> or inserts it.
\<close>

type_synonym Vector = "(ShortID \<times> nat) list"

fun Update :: "Vector \<Rightarrow> ShortID \<Rightarrow> Vector" where
  "Update [] s = [(s, 1)]"
| "Update ((i, c) # v) s =
     (if i = s then (i, c + 1) # v
      else if s < i then (s, 1) # (i, c) # v
      else (i, c) # Update v s)"

text \<open>
  The fields of a \<^verbatim>\<open>FileInfo\<close> that a rescan compares or writes, and what the file
  system reports for the file. Times are in nanoseconds.
\<close>

record FileInfo =
  fi_Name :: string
  fi_Size :: int
  fi_Permissions :: nat
  fi_Modified :: int
  fi_Version :: Vector

record stat =
  st_Size :: int
  st_Mode :: nat
  st_ModTime :: int

definition second :: int where "second = 1000000000"

text \<open>
  Modelled from the spec: the rescan of one file that is already in the index (the scanner
  is not among the files at hand). The spec (4.3): for each visited entry the scanner
  compares (modified, size, permissions) against the stored local FileInfo; unchanged
  entries are skipped; for a changed entry a new FileInfo with
  \<open>version = local.version.update(self.short)\<close> is committed; a configurable
  \<^verbatim>\<open>ModTimeWindowS\<close> tolerance suppresses spurious rescans. The spec (8): with
  \<^verbatim>\<open>ModTimeWindowS = 2\<close>, chtimes by +1 s triggers no version bump, chtimes by +2 s does;
  so two times are taken as equal when they differ by less than the window.
\<close>

definition ModTimeEqual :: "int \<Rightarrow> int \<Rightarrow> int \<Rightarrow> bool" where
  "ModTimeEqual a b modTimeWindow = (a = b \<or> \<bar>a - b\<bar> < modTimeWindow)"

definition unchanged :: "int \<Rightarrow> FileInfo \<Rightarrow> stat \<Rightarrow> bool" where
  "unchanged modTimeWindowS fi st =
     (fi_Size fi = st_Size st \<and> fi_Permissions fi = st_Mode st
      \<and> ModTimeEqual (fi_Modified fi) (st_ModTime st) (modTimeWindowS * second))"

definition rescan :: "int \<Rightarrow> ShortID \<Rightarrow> FileInfo \<Rightarrow> stat \<Rightarrow> FileInfo" where
  "rescan modTimeWindowS self fi st =
     (if unchanged modTimeWindowS fi st then fi
      else fi\<lparr>fi_Size := st_Size st, fi_Permissions := st_Mode st,
              fi_Modified := st_ModTime st, fi_Version := Update (fi_Version fi) self\<rparr>)"

text \<open>\<^verbatim>\<open>Chtimes\<close> on the file system: only the modification time changes.\<close>

definition Chtimes :: "stat \<Rightarrow> int \<Rightarrow> stat" where
  "Chtimes st mtime = st\<lparr>st_ModTime := mtime\<rparr>"

text \<open>What the file system reports for a file as the index has it.\<close>

definition statOf :: "FileInfo \<Rightarrow> stat" where
  "statOf fi = \<lparr>st_Size = fi_Size fi, st_Mode = fi_Permissions fi, st_ModTime = fi_Modified fi\<rparr>"

section \<open>The model object: introducers\<close>

text \<open>Does the message list the device for the folder?\<close>

definition listed :: "ClusterConfig \<Rightarrow> string \<Rightarrow> DeviceID \<Rightarrow> bool" where
  "listed cm folder device =
     list_ex (\<lambda>pf. pf_ID pf = folder \<and> list_ex (\<lambda>pd. pd_ID pd = device) (pf_Devices pf))
       (cc_Folders cm)"

text \<open>
  Modelled from the spec: the introducer step of the \<^verbatim>\<open>ClusterConfig\<close> dispatch (the
  model object is not among the files at hand; \<^verbatim>\<open>TestIntroducer\<close> is). The spec (4.6):
  if P is flagged as introducer, its ClusterConfig's per-folder device list may add new
  devices to the local config (as introducedBy = P). If P later drops devices from its
  ClusterConfig and P remains the sole introducer of those devices in a folder, they are
  removed from that folder (and from the device roster if no other folder retains them).
  \<^verbatim>\<open>SkipIntroductionRemovals\<close> on P suppresses removal.

  Additions first. For a folder we have, the devices the message lists for it, ourselves
  apart: a device we do not know joins the roster with the flags the message gives it, and
  the folder is shared with a device it is not yet shared with; both are marked as
  introduced by P. A device we know keeps its flags, as the test expects.
\<close>

definition offeredDevices :: "DeviceID \<Rightarrow> ClusterConfig \<Rightarrow> string \<Rightarrow> Device list" where
  "offeredDevices self cm folder =
     filter (\<lambda>pd. pd_ID pd \<noteq> self)
       (concat (map pf_Devices (filter (\<lambda>pf. pf_ID pf = folder) (cc_Folders cm))))"

definition introduceDevice :: "DeviceID \<Rightarrow> DeviceConfiguration list \<Rightarrow> Device \<Rightarrow> DeviceConfiguration list" where
  "introduceDevice introducer ds pd =
     (if list_ex (\<lambda>d. dc_DeviceID d = pd_ID pd) ds then ds
      else ds @ [\<lparr>dc_DeviceID = pd_ID pd, dc_Name = pd_Name pd,
                  dc_Introducer = pd_Introducer pd,
                  dc_SkipIntroductionRemovals = pd_SkipIntroductionRemovals pd,
                  dc_IntroducedBy = introducer, dc_AutoAcceptFolders = False,
                  dc_PendingFolders = []\<rparr>])"

definition shareFolder :: "DeviceID \<Rightarrow> FolderConfiguration \<Rightarrow> Device \<Rightarrow> FolderConfiguration" where
  "shareFolder introducer f pd =
     (if SharedWith f (pd_ID pd) then f
      else f\<lparr>fc_Devices := fc_Devices f
               @ [\<lparr>fd_DeviceID = pd_ID pd, fd_IntroducedBy = introducer\<rparr>]\<rparr>)"

definition handleIntroductions :: "DeviceID \<Rightarrow> DeviceID \<Rightarrow> ClusterConfig \<Rightarrow> Configuration \<Rightarrow> Configuration" where
  "handleIntroductions self introducer cm c =
     c\<lparr>cfg_Devices :=
         foldl (introduceDevice introducer) (cfg_Devices c)
           (concat (map (\<lambda>f. offeredDevices self cm (fc_ID f)) (cfg_Folders c))),
       cfg_Folders :=
         map (\<lambda>f. foldl (shareFolder introducer) f (offeredDevices self cm (fc_ID f)))
           (cfg_Folders c)\<rparr>"

text \<open>
  Removals. A folder's device entry is dropped when P introduced it and the message does
  not list the device for the folder. A device leaves the roster when an entry of it was
  dropped and no folder retains it.
\<close>

definition dropped :: "DeviceID \<Rightarrow> ClusterConfig \<Rightarrow> FolderConfiguration \<Rightarrow> FolderDeviceConfiguration \<Rightarrow> bool" where
  "dropped introducer cm f e =
     (fd_IntroducedBy e = introducer \<and> \<not> listed cm (fc_ID f) (fd_DeviceID e))"

definition unshare :: "DeviceID \<Rightarrow> ClusterConfig \<Rightarrow> FolderConfiguration \<Rightarrow> FolderConfiguration" where
  "unshare introducer cm f =
     f\<lparr>fc_Devices := filter (\<lambda>e. \<not> dropped introducer cm f e) (fc_Devices f)\<rparr>"

definition wasDropped :: "DeviceID \<Rightarrow> ClusterConfig \<Rightarrow> FolderConfiguration list \<Rightarrow> DeviceID \<Rightarrow> bool" where
  "wasDropped introducer cm fs device =
     list_ex (\<lambda>f. list_ex (\<lambda>e. fd_DeviceID e = device \<and> dropped introducer cm f e) (fc_Devices f)) fs"

definition retained :: "FolderConfiguration list \<Rightarrow> DeviceID \<Rightarrow> bool" where
  "retained fs device = list_ex (\<lambda>f. SharedWith f device) fs"

definition handleDeintroductions :: "DeviceID \<Rightarrow> ClusterConfig \<Rightarrow> Configuration \<Rightarrow> Configuration" where
  "handleDeintroductions introducer cm c =
     (let folders = map (unshare introducer cm) (cfg_Folders c)
      in c\<lparr>cfg_Folders := folders,
           cfg_Devices :=
             filter (\<lambda>d. \<not> (wasDropped introducer cm (cfg_Folders c) (dc_DeviceID d)
                            \<and> \<not> retained folders (dc_DeviceID d)))
               (cfg_Devices c)\<rparr>)"

text \<open>
  The step as a whole, for a message \<open>cm\<close> from the device \<open>deviceID\<close>: the configuration
  that the dispatch proposes to the wrapper.
\<close>

definition introducerStep :: "DeviceID \<Rightarrow> DeviceID \<Rightarrow> ClusterConfig \<Rightarrow> Configuration \<Rightarrow> Configuration" where
  "introducerStep self deviceID cm c =
     (case find (\<lambda>d. dc_DeviceID d = deviceID) (cfg_Devices c) of
        None \<Rightarrow> c
      | Some deviceCfg \<Rightarrow>
          if \<not> dc_Introducer deviceCfg then c
          else let c1 = handleIntroductions self deviceID cm c
               in if dc_SkipIntroductionRemovals deviceCfg then c1
                  else handleDeintroductions deviceID cm c1)"

text \<open>
  The fixtures of \<^verbatim>\<open>TestIntroducer\<close>: two folders, the first device as (possible)
  introducer, the second device as introduced by it; and the test's \<^verbatim>\<open>contains\<close>, for
  which the zero identity means "introduced by anyone".
\<close>

definition fdev :: "DeviceID \<Rightarrow> DeviceID \<Rightarrow> FolderDeviceConfiguration" where
  "fdev i introducedBy = \<lparr>fd_DeviceID = i, fd_IntroducedBy = introducedBy\<rparr>"

definition twoFolders :: "DeviceConfiguration list \<Rightarrow> FolderDeviceConfiguration list \<Rightarrow> FolderDeviceConfiguration list \<Rightarrow> Configuration" where
  "twoFolders devs ds1 ds2 =
     zeroConfiguration\<lparr>cfg_Devices := devs,
       cfg_Folders := [(zeroFolder ''folder1'')\<lparr>fc_Path := ''testdata'', fc_Devices := ds1\<rparr>,
                       (zeroFolder ''folder2'')\<lparr>fc_Path := ''testdata'', fc_Devices := ds2\<rparr>]\<rparr>"

definition introducer1 :: DeviceConfiguration where
  "introducer1 = (zeroDevice device1)\<lparr>dc_Introducer := True\<rparr>"

definition introduced2 :: DeviceConfiguration where
  "introduced2 = (zeroDevice device2)\<lparr>dc_IntroducedBy := device1\<rparr>"

definition offers2 :: "string \<Rightarrow> ClusterConfig" where
  "offers2 folder =
     \<lparr>cc_Folders = [\<lparr>pf_ID = folder, pf_Label = [], pf_Devices =
        [\<lparr>pd_ID = device2, pd_Name = [], pd_Introducer = True,
          pd_SkipIntroductionRemovals = True\<rparr>]\<rparr>]\<rparr>"

definition contains :: "FolderConfiguration \<Rightarrow> DeviceID \<Rightarrow> DeviceID \<Rightarrow> bool" where
  "contains f i introducedBy =
     (case find (\<lambda>dev. fd_DeviceID dev = i) (fc_Devices f) of
        None \<Rightarrow> False
      | Some dev \<Rightarrow> introducedBy = EmptyDeviceID \<or> fd_IntroducedBy dev = introducedBy)"

definition bothIntroduced :: Configuration where
  "bothIntroduced =
     twoFolders [introducer1, introduced2]
       [fdev device1 EmptyDeviceID, fdev device2 device1]
       [fdev device1 EmptyDeviceID, fdev device2 device1]"

section \<open>Stopping is first-call-wins\<close>

lemma stopWithErr_running: "running a \<Longrightarrow> stopWithErr a r e = Inr (r, afterStop a r e)"
  by (simp add: stopWithErr_def running_def afterStop_def Let_def)

lemma stopWithErr_done: "stopOnce a \<Longrightarrow> stopWithErr a r e = Inr (exitStatus a, a)"
  by (simp add: stopWithErr_def)

lemma callStop_running:
  "running a \<Longrightarrow> callStop a c = Inr (reasonOf c, afterStop a (reasonOf c) (errOf c))"
  by (cases c) (simp_all add: Stop_def stopWithErr_running)

lemma callStop_done: "stopOnce a \<Longrightarrow> callStop a c = Inr (exitStatus a, a)"
  by (cases c) (simp_all add: Stop_def stopWithErr_done)

lemma afterStop_fields:
  "exitStatus (afterStop a r e) = r" "err (afterStop a r e) = e" "stopOnce (afterStop a r e)"
  "stop (afterStop a r e)" "startOnce (afterStop a r e) = startOnce a"
  by (simp_all add: afterStop_def)

lemma Start_running:
  assumes "running a" and "fst (startup env) = None"
  shows "\<exists>a' tr. Start env a = Inr (a', tr) \<and> running a'"
proof -
  obtain tr where "startup env = (None, tr)"
    using assms(2) by (cases "startup env") auto
  with assms(1) show ?thesis
    by (simp add: Start_def running_def)
qed

lemma Start_fails_running:
  assumes "running a" and "\<not> startOnce a" and "fst (startup env) = Some e"
  shows "Start env a = Inr ((afterStop a ExitError (Some e))\<lparr>startOnce := True\<rparr>, snd (startup env))"
proof -
  obtain tr where "startup env = (Some e, tr)"
    using assms(3) by (cases "startup env") auto
  with assms(1,2) show ?thesis
    by (simp add: Start_def stopWithErr_running)
qed

lemma Start_done:
  assumes "stopOnce a"
  shows "\<exists>a' tr. Start env a = Inr (a', tr) \<and> exitStatus a' = exitStatus a \<and> err a' = err a
           \<and> stop a' = stop a \<and> stopOnce a'"
proof (cases "startup env")
  case (Pair r tr)
  with assms show ?thesis
    by (cases r) (auto simp: Start_def stopWithErr_done)
qed

lemma appCalls_done:
  "stopOnce a \<Longrightarrow>
   \<exists>a'. appCalls a cs = Inr (replicate (length (filter isStop cs)) (exitStatus a), a')
       \<and> exitStatus a' = exitStatus a \<and> err a' = err a \<and> stop a' = stop a \<and> stopOnce a'"
proof (induction cs arbitrary: a)
  case Nil
  then show ?case by simp
next
  case (Cons c cs)
  show ?case
  proof (cases c)
    case (CallStart env)
    from Start_done [OF Cons.prems, of env] obtain a1 tr where
      s: "Start env a = Inr (a1, tr)" "exitStatus a1 = exitStatus a" "err a1 = err a"
        "stop a1 = stop a" "stopOnce a1"
      by blast
    from Cons.IH [OF s(5)] s CallStart show ?thesis by auto
  next
    case (CallStop sc)
    from Cons.IH [OF Cons.prems] CallStop Cons.prems show ?thesis
      by (auto simp: callStop_done)
  qed
qed

lemma appCalls_first_stop:
  assumes "running a"
  shows "\<exists>a'. appCalls a (CallStop c # cs)
             = Inr (replicate (Suc (length (filter isStop cs))) (reasonOf c), a')
       \<and> exitStatus a' = reasonOf c \<and> err a' = errOf c \<and> stop a' \<and> stopOnce a'"
proof -
  let ?a1 = "afterStop a (reasonOf c) (errOf c)"
  have "stopOnce ?a1" by (simp add: afterStop_fields)
  from appCalls_done [OF this, of cs] obtain a' where
    "appCalls ?a1 cs = Inr (replicate (length (filter isStop cs)) (exitStatus ?a1), a')"
    "exitStatus a' = exitStatus ?a1" "err a' = err ?a1" "stop a' = stop ?a1" "stopOnce a'"
    by blast
  with assms show ?thesis
    by (simp add: callStop_running afterStop_fields)
qed

lemma appCalls_starts:
  assumes "running a" and "\<forall>env\<in>set envs. fst (startup env) = None"
  shows "\<exists>a'. running a' \<and> appCalls a (map CallStart envs @ cs) = appCalls a' cs"
  using assms
proof (induction envs arbitrary: a)
  case Nil
  then show ?case by auto
next
  case (Cons env envs)
  from Cons.prems have "fst (startup env) = None" by simp
  from Start_running [OF Cons.prems(1) this] obtain a1 tr where
    s: "Start env a = Inr (a1, tr)" "running a1" by blast
  from Cons.prems(2) have "\<forall>env\<in>set envs. fst (startup env) = None" by simp
  from Cons.IH [OF s(2) this] s(1) show ?case by auto
qed

lemma running_New: "running New" "running (New\<lparr>startOnce := True\<rparr>)"
  by (simp_all add: running_def New_def ExitSuccess_def)

text \<open>
  C10. Stopping is first-call-wins. An application is \<open>running\<close> as \<^verbatim>\<open>New\<close> makes it and
  stays so through every \<^verbatim>\<open>Start\<close> whose start-up succeeds. On a running application
  the first stop call, through \<^verbatim>\<open>Stop\<close> or \<^verbatim>\<open>stopWithErr\<close>, returns its own status,
  records its status and error and closes the stop channel. On an application that a stop
  call has reached, every stop call, whatever its status and error, returns the recorded
  status and changes nothing, and \<^verbatim>\<open>Start\<close> leaves status, error and channel alone.
  Hence in any sequence of calls made after \<^verbatim>\<open>New\<close> (after any number of successful
  starts) that begins with a stop call and goes on with stop calls and starts in any
  order, every stop call returns the status of the first, and the status and error of the
  first are what is recorded at the end. A \<^verbatim>\<open>Start\<close> whose start-up fails is itself the
  first stop call, with \<^verbatim>\<open>ExitError\<close> and the start-up error. No call panics.
\<close>

theorem stop_first_call_wins:
  "running New
   \<and> (running a \<longrightarrow>
        stopWithErr a r e = Inr (r, afterStop a r e)
        \<and> Stop a r = Inr (r, afterStop a r None)
        \<and> (fst (startup env) = None \<longrightarrow> (\<exists>a' tr. Start env a = Inr (a', tr) \<and> running a'))
        \<and> (fst (startup env) = Some cause \<and> \<not> startOnce a \<longrightarrow>
              Start env a = Inr ((afterStop a ExitError (Some cause))\<lparr>startOnce := True\<rparr>,
                                 snd (startup env))))
   \<and> exitStatus (afterStop a r e) = r \<and> err (afterStop a r e) = e
   \<and> stop (afterStop a r e) \<and> stopOnce (afterStop a r e)
   \<and> (stopOnce a \<longrightarrow>
        stopWithErr a r' e' = Inr (exitStatus a, a)
        \<and> Stop a r' = Inr (exitStatus a, a)
        \<and> (\<exists>a' tr. Start env a = Inr (a', tr) \<and> exitStatus a' = exitStatus a
              \<and> err a' = err a \<and> stop a' = stop a \<and> stopOnce a'))
   \<and> ((\<forall>env\<in>set envs. fst (startup env) = None) \<longrightarrow>
        (\<exists>a'. appCalls New (map CallStart envs @ CallStop c # cs)
                 = Inr (replicate (Suc (length (filter isStop cs))) (reasonOf c), a')
             \<and> exitStatus a' = reasonOf c \<and> err a' = errOf c \<and> stop a' \<and> stopOnce a'))"
proof (intro conjI impI)
  show "running New" by (rule running_New)
next
  assume "running a"
  then show "stopWithErr a r e = Inr (r, afterStop a r e)"
    by (rule stopWithErr_running)
next
  assume "running a"
  then show "Stop a r = Inr (r, afterStop a r None)"
    by (simp add: Stop_def stopWithErr_running)
next
  assume "running a" and "fst (startup env) = None"
  then show "\<exists>a' tr. Start env a = Inr (a', tr) \<and> running a'"
    by (rule Start_running)
next
  assume "running a" and "fst (startup env) = Some cause \<and> \<not> startOnce a"
  then show "Start env a = Inr ((afterStop a ExitError (Some cause))\<lparr>startOnce := True\<rparr>,
                                 snd (startup env))"
    by (simp add: Start_fails_running)
next
  show "exitStatus (afterStop a r e) = r" "err (afterStop a r e) = e"
    "stop (afterStop a r e)" "stopOnce (afterStop a r e)"
    by (simp_all add: afterStop_fields)
next
  assume "stopOnce a"
  then show "stopWithErr a r' e' = Inr (exitStatus a, a)"
    by (rule stopWithErr_done)
next
  assume "stopOnce a"
  then show "Stop a r' = Inr (exitStatus a, a)"
    by (simp add: Stop_def stopWithErr_done)
next
  assume "stopOnce a"
  then show "\<exists>a' tr. Start env a = Inr (a', tr) \<and> exitStatus a' = exitStatus a
              \<and> err a' = err a \<and> stop a' = stop a \<and> stopOnce a'"
    by (rule Start_done)
next
  assume s: "\<forall>env\<in>set envs. fst (startup env) = None"
  from appCalls_starts [OF running_New(1) s, of "CallStop c # cs"] obtain a1 where
    a1: "running a1" "appCalls New (map CallStart envs @ CallStop c # cs)
           = appCalls a1 (CallStop c # cs)"
    by blast
  from appCalls_first_stop [OF a1(1), of c cs] a1(2)
  show "\<exists>a'. appCalls New (map CallStart envs @ CallStop c # cs)
                 = Inr (replicate (Suc (length (filter isStop cs))) (reasonOf c), a')
             \<and> exitStatus a' = reasonOf c \<and> err a' = errOf c \<and> stop a' \<and> stopOnce a'"
    by simp
qed

lemma startup_quietEnv: "fst (startup quietEnv) = None"
  by (simp add: startup_def quietEnv_def clashEnv_def checkShortIDs_def setupGUI_def GUI_def
      Wrap_def clashCfg_def zeroConfiguration_def Let_def split: prod.splits)

theorem stop_first_call_wins_witness:
  "running (New\<lparr>startOnce := True\<rparr>)
   \<and> list_all (\<lambda>env. fst (startup env) = None) [quietEnv]
   \<and> Stop (New\<lparr>startOnce := True\<rparr>) ExitRestart
       = Inr (ExitRestart, afterStop (New\<lparr>startOnce := True\<rparr>) ExitRestart None)
   \<and> stopOnce (afterStop (New\<lparr>startOnce := True\<rparr>) ExitRestart None)
   \<and> Stop (afterStop (New\<lparr>startOnce := True\<rparr>) ExitRestart None) ExitUpgrade
       = Inr (ExitRestart, afterStop (New\<lparr>startOnce := True\<rparr>) ExitRestart None)
   \<and> (\<exists>a'. appCalls New
              [CallStart quietEnv, CallStop (ViaStop ExitRestart),
               CallStop (ViaStopWithErr ExitError (Some (Err ''late''))), CallStart clashEnv,
               CallStop (ViaStop ExitSuccess)]
            = Inr ([ExitRestart, ExitRestart, ExitRestart], a')
          \<and> exitStatus a' = ExitRestart \<and> err a' = None \<and> stop a')"
proof -
  let ?a = "New\<lparr>startOnce := True\<rparr>"
  have h1: "running ?a" by (rule running_New)
  have h2: "\<forall>env\<in>set [quietEnv]. fst (startup env) = None"
    by (simp add: startup_quietEnv)
  have h3: "stopOnce (afterStop ?a ExitRestart None)"
    by (simp add: afterStop_def)
  note t1 = stop_first_call_wins [where a = ?a and r = ExitRestart and e = None
      and env = quietEnv and cause = ErrGeneric and r' = ExitUpgrade and e' = None
      and envs = "[]" and c = "ViaStop ExitRestart" and cs = "[]"]
  note t2 = stop_first_call_wins [where a = "afterStop ?a ExitRestart None"
      and r = ExitRestart and e = None and env = quietEnv and cause = ErrGeneric
      and r' = ExitUpgrade and e' = None and envs = "[quietEnv]" and c = "ViaStop ExitRestart"
      and cs = "[CallStop (ViaStopWithErr ExitError (Some (Err ''late''))), CallStart clashEnv,
        CallStop (ViaStop ExitSuccess)]"]
  from t1 h1 have a: "Stop ?a ExitRestart = Inr (ExitRestart, afterStop ?a ExitRestart None)"
    by simp
  have "exitStatus (afterStop ?a ExitRestart None) = ExitRestart"
    by (simp add: afterStop_def)
  with t2 h3 have b: "Stop (afterStop ?a ExitRestart None) ExitUpgrade
       = Inr (ExitRestart, afterStop ?a ExitRestart None)"
    by simp
  let ?cs = "[CallStop (ViaStopWithErr ExitError (Some (Err ''late''))), CallStart clashEnv,
        CallStop (ViaStop ExitSuccess)]"
  from t2 h2 obtain a' where
    r: "appCalls New (map CallStart [quietEnv] @ CallStop (ViaStop ExitRestart) # ?cs)
          = Inr (replicate (Suc (length (filter isStop ?cs))) (reasonOf (ViaStop ExitRestart)), a')"
    and f: "exitStatus a' = reasonOf (ViaStop ExitRestart)" "err a' = errOf (ViaStop ExitRestart)"
      "stop a'"
    by blast
  have l: "map CallStart [quietEnv] @ CallStop (ViaStop ExitRestart) # ?cs
      = [CallStart quietEnv, CallStop (ViaStop ExitRestart),
         CallStop (ViaStopWithErr ExitError (Some (Err ''late''))), CallStart clashEnv,
         CallStop (ViaStop ExitSuccess)]"
    by simp
  have n: "replicate (Suc (length (filter isStop ?cs))) (reasonOf (ViaStop ExitRestart))
      = [ExitRestart, ExitRestart, ExitRestart]"
    by simp
  from r [unfolded l n] f have c: "\<exists>a'. appCalls New
              [CallStart quietEnv, CallStop (ViaStop ExitRestart),
               CallStop (ViaStopWithErr ExitError (Some (Err ''late''))), CallStart clashEnv,
               CallStop (ViaStop ExitSuccess)]
            = Inr ([ExitRestart, ExitRestart, ExitRestart], a')
          \<and> exitStatus a' = ExitRestart \<and> err a' = None \<and> stop a'"
    by (intro exI [of _ a']) simp
  from h1 h2 h3 a b c show ?thesis by (simp add: list_all_iff del: appCalls.simps)
qed

section \<open>Pending folders\<close>


lemma updatePendingFolders_absent:
  "i \<notin> of_ID ` set ps \<Longrightarrow>
   updatePendingFolders ps i label now = ps @ [\<lparr>of_Time = now, of_ID = i, of_Label = label\<rparr>]"
  by (induction ps) auto

lemma updatePendingFolders_present:
  "i \<in> of_ID ` set ps \<Longrightarrow>
   \<exists>m<length ps. of_ID (ps ! m) = i \<and> (\<forall>j<m. of_ID (ps ! j) \<noteq> i) \<and>
     updatePendingFolders ps i label now = ps[m := (ps ! m)\<lparr>of_Label := label, of_Time := now\<rparr>]"
proof (induction ps)
  case Nil
  then show ?case by simp
next
  case (Cons p ps)
  show ?case
  proof (cases "of_ID p = i")
    case True
    then show ?thesis by (intro exI [of _ 0]) simp
  next
    case False
    with Cons.prems have "i \<in> of_ID ` set ps" by auto
    from Cons.IH [OF this] obtain m where m: "m < length ps" "of_ID (ps ! m) = i"
      "\<forall>j<m. of_ID (ps ! j) \<noteq> i"
      "updatePendingFolders ps i label now = ps[m := (ps ! m)\<lparr>of_Label := label, of_Time := now\<rparr>]"
      by blast
    have "\<forall>j<Suc m. of_ID ((p # ps) ! j) \<noteq> i"
      using False m(3) by (auto simp: less_Suc_eq_0_disj)
    with m False show ?thesis by (intro exI [of _ "Suc m"]) simp
  qed
qed

lemma pendingFolderDevices_None:
  "(pendingFolderDevices ds i label device now = None) = (device \<notin> dc_DeviceID ` set ds)"
  by (induction ds) auto

lemma pendingFolderDevices_Some:
  "device \<in> dc_DeviceID ` set ds \<Longrightarrow>
   \<exists>k<length ds. dc_DeviceID (ds ! k) = device \<and> (\<forall>j<k. dc_DeviceID (ds ! j) \<noteq> device) \<and>
     pendingFolderDevices ds i label device now =
       Some (ds[k := (ds ! k)\<lparr>dc_PendingFolders :=
                 updatePendingFolders (dc_PendingFolders (ds ! k)) i label now\<rparr>])"
proof (induction ds)
  case Nil
  then show ?case by simp
next
  case (Cons d ds)
  show ?case
  proof (cases "dc_DeviceID d = device")
    case True
    then show ?thesis by (intro exI [of _ 0]) simp
  next
    case False
    with Cons.prems have "device \<in> dc_DeviceID ` set ds" by auto
    from Cons.IH [OF this] obtain k where k: "k < length ds" "dc_DeviceID (ds ! k) = device"
      "\<forall>j<k. dc_DeviceID (ds ! j) \<noteq> device"
      "pendingFolderDevices ds i label device now =
       Some (ds[k := (ds ! k)\<lparr>dc_PendingFolders :=
                 updatePendingFolders (dc_PendingFolders (ds ! k)) i label now\<rparr>])"
      by blast
    have "\<forall>j<Suc k. dc_DeviceID ((d # ds) ! j) \<noteq> device"
      using False k(3) by (auto simp: less_Suc_eq_0_disj)
    with k False show ?thesis by (intro exI [of _ "Suc k"]) simp
  qed
qed

lemma updatePendingFolders_edited:
  "pendingEdited ps i label now (updatePendingFolders ps i label now)"
proof (cases "i \<in> of_ID ` set ps")
  case True
  from updatePendingFolders_present [OF this, of label now] show ?thesis
    unfolding pendingEdited_def by blast
next
  case False
  then show ?thesis
    unfolding pendingEdited_def by (simp add: updatePendingFolders_absent)
qed

text \<open>
  C9. \<^verbatim>\<open>AddOrUpdatePendingFolder\<close> with a device identity that no configured device
  has panics. With an identity that some configured device has, it returns normally: in
  the first device \<open>k\<close> with that identity, the pending-folder entry with the given ID
  gets the new label and time, or, when there is none, a new entry is appended; nothing
  else in the wrapper changes.
\<close>

theorem AddOrUpdatePendingFolder_spec:
  "(device \<notin> dc_DeviceID ` set (cfg_Devices (cfg w)) \<longrightarrow>
      AddOrUpdatePendingFolder w i label device now
        = Inl (Panic ''bug: adding pending folder for non-existing device''))
   \<and> (device \<in> dc_DeviceID ` set (cfg_Devices (cfg w)) \<longrightarrow>
      (\<exists>k new. k < length (cfg_Devices (cfg w))
         \<and> dc_DeviceID (cfg_Devices (cfg w) ! k) = device
         \<and> (\<forall>j<k. dc_DeviceID (cfg_Devices (cfg w) ! j) \<noteq> device)
         \<and> pendingEdited (dc_PendingFolders (cfg_Devices (cfg w) ! k)) i label now new
         \<and> AddOrUpdatePendingFolder w i label device now
             = Inr (w\<lparr>cfg := (cfg w)\<lparr>cfg_Devices :=
                          (cfg_Devices (cfg w))[k := (cfg_Devices (cfg w) ! k)\<lparr>dc_PendingFolders := new\<rparr>]\<rparr>\<rparr>)))"
proof (intro conjI impI)
  assume "device \<notin> dc_DeviceID ` set (cfg_Devices (cfg w))"
  then have "pendingFolderDevices (cfg_Devices (cfg w)) i label device now = None"
    by (simp add: pendingFolderDevices_None)
  then show "AddOrUpdatePendingFolder w i label device now
        = Inl (Panic ''bug: adding pending folder for non-existing device'')"
    by (simp add: AddOrUpdatePendingFolder_def)
next
  assume "device \<in> dc_DeviceID ` set (cfg_Devices (cfg w))"
  from pendingFolderDevices_Some [OF this, of i label now]
  obtain k where k: "k < length (cfg_Devices (cfg w))"
    "dc_DeviceID (cfg_Devices (cfg w) ! k) = device"
    "\<forall>j<k. dc_DeviceID (cfg_Devices (cfg w) ! j) \<noteq> device"
    "pendingFolderDevices (cfg_Devices (cfg w)) i label device now =
       Some ((cfg_Devices (cfg w))[k := (cfg_Devices (cfg w) ! k)\<lparr>dc_PendingFolders :=
                 updatePendingFolders (dc_PendingFolders (cfg_Devices (cfg w) ! k)) i label now\<rparr>])"
    by blast
  show "\<exists>k new. k < length (cfg_Devices (cfg w))
         \<and> dc_DeviceID (cfg_Devices (cfg w) ! k) = device
         \<and> (\<forall>j<k. dc_DeviceID (cfg_Devices (cfg w) ! j) \<noteq> device)
         \<and> pendingEdited (dc_PendingFolders (cfg_Devices (cfg w) ! k)) i label now new
         \<and> AddOrUpdatePendingFolder w i label device now
             = Inr (w\<lparr>cfg := (cfg w)\<lparr>cfg_Devices :=
                          (cfg_Devices (cfg w))[k := (cfg_Devices (cfg w) ! k)\<lparr>dc_PendingFolders := new\<rparr>]\<rparr>\<rparr>)"
    apply (rule exI [of _ k])
    apply (rule exI [of _ "updatePendingFolders (dc_PendingFolders (cfg_Devices (cfg w) ! k)) i label now"])
    using k by (simp add: AddOrUpdatePendingFolder_def updatePendingFolders_edited)
qed

theorem AddOrUpdatePendingFolder_spec_witness:
  "device1 \<in> dc_DeviceID ` set (cfg_Devices (cfg (Wrap ''config.xml'' oneDeviceCfg)))
   \<and> device2 \<notin> dc_DeviceID ` set (cfg_Devices (cfg (Wrap ''config.xml'' oneDeviceCfg)))
   \<and> AddOrUpdatePendingFolder (Wrap ''config.xml'' oneDeviceCfg) ''f'' ''label'' device2 7
        = Inl (Panic ''bug: adding pending folder for non-existing device'')
   \<and> (\<exists>k new. k < length (cfg_Devices (cfg (Wrap ''config.xml'' oneDeviceCfg)))
         \<and> pendingEdited
              (dc_PendingFolders (cfg_Devices (cfg (Wrap ''config.xml'' oneDeviceCfg)) ! k))
              ''f'' ''label'' 7 new
         \<and> AddOrUpdatePendingFolder (Wrap ''config.xml'' oneDeviceCfg) ''f'' ''label'' device1 7
             = Inr ((Wrap ''config.xml'' oneDeviceCfg)\<lparr>cfg :=
                  (cfg (Wrap ''config.xml'' oneDeviceCfg))\<lparr>cfg_Devices :=
                    (cfg_Devices (cfg (Wrap ''config.xml'' oneDeviceCfg)))
                      [k := (cfg_Devices (cfg (Wrap ''config.xml'' oneDeviceCfg)) ! k)
                              \<lparr>dc_PendingFolders := new\<rparr>]\<rparr>\<rparr>))"
proof -
  have in1: "device1 \<in> dc_DeviceID ` set (cfg_Devices (cfg (Wrap ''config.xml'' oneDeviceCfg)))"
    by (simp add: Wrap_def oneDeviceCfg_def zeroDevice_def)
  have out2: "device2 \<notin> dc_DeviceID ` set (cfg_Devices (cfg (Wrap ''config.xml'' oneDeviceCfg)))"
    by (simp add: Wrap_def oneDeviceCfg_def zeroDevice_def device1_def device2_def)
  note a = AddOrUpdatePendingFolder_spec [of device1 "Wrap ''config.xml'' oneDeviceCfg" "''f''" "''label''" 7]
  note b = AddOrUpdatePendingFolder_spec [of device2 "Wrap ''config.xml'' oneDeviceCfg" "''f''" "''label''" 7]
  from a in1 have "\<exists>k new. k < length (cfg_Devices (cfg (Wrap ''config.xml'' oneDeviceCfg)))
         \<and> pendingEdited
              (dc_PendingFolders (cfg_Devices (cfg (Wrap ''config.xml'' oneDeviceCfg)) ! k))
              ''f'' ''label'' 7 new
         \<and> AddOrUpdatePendingFolder (Wrap ''config.xml'' oneDeviceCfg) ''f'' ''label'' device1 7
             = Inr ((Wrap ''config.xml'' oneDeviceCfg)\<lparr>cfg :=
                  (cfg (Wrap ''config.xml'' oneDeviceCfg))\<lparr>cfg_Devices :=
                    (cfg_Devices (cfg (Wrap ''config.xml'' oneDeviceCfg)))
                      [k := (cfg_Devices (cfg (Wrap ''config.xml'' oneDeviceCfg)) ! k)
                              \<lparr>dc_PendingFolders := new\<rparr>]\<rparr>\<rparr>)"
    by blast
  moreover from b out2 have "AddOrUpdatePendingFolder (Wrap ''config.xml'' oneDeviceCfg) ''f'' ''label'' device2 7
        = Inl (Panic ''bug: adding pending folder for non-existing device'')"
    by blast
  ultimately show ?thesis using in1 out2 by blast
qed

lemma AddOrUpdatePendingFolder_example:
  "AddOrUpdatePendingFolder (Wrap ''config.xml'' oneDeviceCfg) ''f'' ''label'' device1 7
     = Inr (Wrap ''config.xml''
         (zeroConfiguration\<lparr>cfg_Devices :=
            [(zeroDevice device1)\<lparr>dc_PendingFolders :=
               [\<lparr>of_Time = 7, of_ID = ''f'', of_Label = ''label''\<rparr>]\<rparr>]\<rparr>))"
  by (simp add: AddOrUpdatePendingFolder_def Wrap_def oneDeviceCfg_def zeroDevice_def)


section \<open>Configuration transitions\<close>


lemma verifyLoop_rejects:
  "\<exists>sub\<in>set ss. VerifyConfiguration sub from to \<noteq> None \<Longrightarrow>
   \<exists>e sub. verifyLoop ss from to = Some e \<and> sub \<in> set ss \<and> VerifyConfiguration sub from to = Some e"
proof (induction ss)
  case Nil
  then show ?case by simp
next
  case (Cons s ss)
  show ?case
  proof (cases "VerifyConfiguration s from to")
    case (Some e)
    then show ?thesis by auto
  next
    case None
    with Cons.prems have "\<exists>sub\<in>set ss. VerifyConfiguration sub from to \<noteq> None" by auto
    from Cons.IH [OF this] None show ?thesis by auto
  qed
qed

lemma verifyLoop_None:
  "(verifyLoop ss from to = None) = (\<forall>sub\<in>set ss. VerifyConfiguration sub from to = None)"
  by (induction ss) (auto split: option.splits)

lemma perform_replaceLocked:
  "proposed w t = Some to \<Longrightarrow> perform clean w t = replaceLocked clean w to"
  by (cases t)
     (auto simp: Replace_def SetFolder_def SetDevice_def SetDevices_def SetOptions_def
        SetGUI_def RemoveDevice_def)

lemma perform_no_proposal:
  "proposed w t = None \<Longrightarrow> perform clean w t = (noopWaiter, None, w)"
  by (cases t) (auto simp: RemoveDevice_def)

lemma replaceLocked_clean_fails:
  "clean to = Inl e \<Longrightarrow> replaceLocked clean w to = (noopWaiter, Some e, w)"
  by (simp add: replaceLocked_def)

lemma replaceLocked_verify_fails:
  "clean to = Inr to' \<Longrightarrow> verifyLoop (subs w) (cfg w) to' = Some e \<Longrightarrow>
   replaceLocked clean w to = (noopWaiter, Some e, w)"
  by (simp add: replaceLocked_def)

lemma replaceLocked_accepts:
  "clean to = Inr to' \<Longrightarrow> verifyLoop (subs w) (cfg w) to' = None \<Longrightarrow>
   replaceLocked clean w to =
     (wg (map (\<lambda>sub. (sub, cfg w, to')) (subs w)), None,
      w\<lparr>cfg := to', deviceMap := None, folderMap := None\<rparr>)"
  by (simp add: replaceLocked_def notifyListeners_def Let_def)

text \<open>
  C1. For each of \<^verbatim>\<open>Replace\<close>, \<^verbatim>\<open>SetFolder\<close>, \<^verbatim>\<open>SetDevice\<close>, \<^verbatim>\<open>SetDevices\<close>,
  \<^verbatim>\<open>SetOptions\<close>, \<^verbatim>\<open>SetGUI\<close> and \<^verbatim>\<open>RemoveDevice\<close>: when the configuration the call
  proposes fails cleaning, or cleans and some subscriber's \<^verbatim>\<open>VerifyConfiguration\<close>
  returns an error for it, the call returns an error, which is the cleaning error or the
  error some subscriber returned; the wrapper after the call is the wrapper before it; the
  waiter is the no-op waiter, so no goroutine calling \<^verbatim>\<open>CommitConfiguration\<close> is started.
\<close>

theorem transition_rejected:
  assumes "proposed w t = Some to"
    and "(\<exists>e. clean to = Inl e) \<or>
         (\<exists>to' sub. clean to = Inr to' \<and> sub \<in> set (subs w) \<and>
                    VerifyConfiguration sub (cfg w) to' \<noteq> None)"
  shows "\<exists>e. perform clean w t = (noopWaiter, Some e, w)
           \<and> goroutines (fst (perform clean w t)) = []
           \<and> step clean (w, gs) (Transition t) = Some (w, gs)
           \<and> (clean to = Inl e \<or>
               (\<exists>to' sub. clean to = Inr to' \<and> sub \<in> set (subs w) \<and>
                          VerifyConfiguration sub (cfg w) to' = Some e))"
proof -
  have p: "perform clean w t = replaceLocked clean w to"
    using assms(1) by (rule perform_replaceLocked)
  from assms(2) show ?thesis
  proof
    assume "\<exists>e. clean to = Inl e"
    then obtain e where e: "clean to = Inl e" ..
    then have "perform clean w t = (noopWaiter, Some e, w)"
      by (simp add: p replaceLocked_clean_fails)
    with e show ?thesis by simp
  next
    assume "\<exists>to' sub. clean to = Inr to' \<and> sub \<in> set (subs w) \<and>
                    VerifyConfiguration sub (cfg w) to' \<noteq> None"
    then obtain to' sub where c: "clean to = Inr to'" and s: "sub \<in> set (subs w)"
      and v: "VerifyConfiguration sub (cfg w) to' \<noteq> None" by blast
    from s v have "\<exists>sub\<in>set (subs w). VerifyConfiguration sub (cfg w) to' \<noteq> None" by blast
    from verifyLoop_rejects [OF this] obtain e sub' where
      l: "verifyLoop (subs w) (cfg w) to' = Some e" and s': "sub' \<in> set (subs w)"
      and v': "VerifyConfiguration sub' (cfg w) to' = Some e" by blast
    have "perform clean w t = (noopWaiter, Some e, w)"
      using c l by (simp add: p replaceLocked_verify_fails)
    with c s' v' show ?thesis by auto
  qed
qed

theorem transition_rejected_witness:
  "proposed rejectingWrapper (DoRemoveDevice device1)
     = Some (oneDeviceCfg\<lparr>cfg_Devices := []\<rparr>)
   \<and> rejecter \<in> set (subs rejectingWrapper)
   \<and> VerifyConfiguration rejecter (cfg rejectingWrapper) (oneDeviceCfg\<lparr>cfg_Devices := []\<rparr>)
       = Some (Err ''rejected'')
   \<and> perform cleanOK rejectingWrapper (DoRemoveDevice device1)
       = (noopWaiter, Some (Err ''rejected''), rejectingWrapper)"
proof -
  have p: "proposed rejectingWrapper (DoRemoveDevice device1)
     = Some (oneDeviceCfg\<lparr>cfg_Devices := []\<rparr>)"
    by (simp add: rejectingWrapper_def Subscribe_def Wrap_def RemoveDevice_newCfg_def
        oneDeviceCfg_def zeroDevice_def)
  have s: "rejecter \<in> set (subs rejectingWrapper)"
    by (simp add: rejectingWrapper_def Subscribe_def Wrap_def)
  have v: "VerifyConfiguration rejecter (cfg rejectingWrapper) (oneDeviceCfg\<lparr>cfg_Devices := []\<rparr>)
       = Some (Err ''rejected'')"
    by (simp add: rejecter_def)
  have c: "cleanOK (oneDeviceCfg\<lparr>cfg_Devices := []\<rparr>) = Inr (oneDeviceCfg\<lparr>cfg_Devices := []\<rparr>)"
    by (simp add: cleanOK_def)
  have h: "(\<exists>e. cleanOK (oneDeviceCfg\<lparr>cfg_Devices := []\<rparr>) = Inl e) \<or>
         (\<exists>to' sub. cleanOK (oneDeviceCfg\<lparr>cfg_Devices := []\<rparr>) = Inr to'
             \<and> sub \<in> set (subs rejectingWrapper) \<and>
                    VerifyConfiguration sub (cfg rejectingWrapper) to' \<noteq> None)"
    using c s v by auto
  from transition_rejected [of rejectingWrapper "DoRemoveDevice device1"
      "oneDeviceCfg\<lparr>cfg_Devices := []\<rparr>" cleanOK "[]", OF p h]
  obtain e where e: "perform cleanOK rejectingWrapper (DoRemoveDevice device1)
       = (noopWaiter, Some e, rejectingWrapper)"
    and w: "cleanOK (oneDeviceCfg\<lparr>cfg_Devices := []\<rparr>) = Inl e \<or>
               (\<exists>to' sub. cleanOK (oneDeviceCfg\<lparr>cfg_Devices := []\<rparr>) = Inr to'
                  \<and> sub \<in> set (subs rejectingWrapper) \<and>
                          VerifyConfiguration sub (cfg rejectingWrapper) to' = Some e)"
    by blast
  from w have "e = Err ''rejected''"
    by (auto simp: cleanOK_def rejectingWrapper_def Subscribe_def Wrap_def rejecter_def)
  with e p s v show ?thesis by simp
qed

lemma RequiresRestart_notifyListener:
  "RequiresRestart w \<Longrightarrow> RequiresRestart (notifyListener w sub from to)"
  by (simp add: notifyListener_def setRequiresRestart_def RequiresRestart_def)

lemma notifyListener_sets:
  "\<not> CommitConfiguration sub from to \<Longrightarrow> RequiresRestart (notifyListener w sub from to)"
  by (simp add: notifyListener_def setRequiresRestart_def RequiresRestart_def)

lemma requiresRestart_replaceLocked:
  "replaceLocked clean w to = (wt, e, w') \<Longrightarrow> requiresRestart w' = requiresRestart w"
  by (auto simp: replaceLocked_def Let_def split: sum.splits option.splits)

lemma requiresRestart_perform:
  "perform clean w t = (wt, e, w') \<Longrightarrow> requiresRestart w' = requiresRestart w"
proof (cases "proposed w t")
  case None
  assume "perform clean w t = (wt, e, w')"
  with None show ?thesis by (simp add: perform_no_proposal)
next
  case (Some to)
  assume "perform clean w t = (wt, e, w')"
  with Some show ?thesis
    by (simp add: perform_replaceLocked requiresRestart_replaceLocked)
qed

lemma RequiresRestart_step:
  assumes "RequiresRestart w" and "step clean (w, gs) a = Some (w', gs')"
  shows "RequiresRestart w'"
proof (cases a)
  case (Transition t)
  obtain wt e w1 where p: "perform clean w t = (wt, e, w1)" by (cases "perform clean w t") auto
  with assms(2) Transition have "w' = w1" by simp
  with requiresRestart_perform [OF p] assms(1) show ?thesis by (simp add: RequiresRestart_def)
next
  case (DoSubscribe c)
  with assms show ?thesis by (auto simp: Subscribe_def RequiresRestart_def)
next
  case (DoUnsubscribe c)
  with assms show ?thesis by (auto simp: Unsubscribe_def RequiresRestart_def)
next
  case DoDevices
  with assms show ?thesis
    by (auto simp: Devices_def RequiresRestart_def Let_def split: option.splits)
next
  case DoFolders
  with assms show ?thesis
    by (auto simp: Folders_def RequiresRestart_def Let_def split: option.splits)
next
  case (DoAddOrUpdatePendingDevice d n ad now)
  with assms show ?thesis by (auto simp: AddOrUpdatePendingDevice_def RequiresRestart_def)
next
  case (DoAddOrUpdatePendingFolder i l d now)
  with assms show ?thesis
    by (auto simp: AddOrUpdatePendingFolder_def RequiresRestart_def split: option.splits)
next
  case (RunGoroutine k)
  with assms show ?thesis
    by (auto simp: RequiresRestart_notifyListener split: if_splits prod.splits)
qed

lemma RequiresRestart_steps:
  "RequiresRestart (fst s) \<Longrightarrow> steps clean s as = Some s' \<Longrightarrow> RequiresRestart (fst s')"
proof (induction as arbitrary: s)
  case Nil
  then show ?case by simp
next
  case (Cons a as)
  from Cons.prems(2) obtain s1 where s1: "step clean s a = Some s1" "steps clean s1 as = Some s'"
    by (auto split: option.splits)
  have "RequiresRestart (fst s1)"
    using RequiresRestart_step [of "fst s" clean "snd s" a "fst s1" "snd s1"] Cons.prems(1) s1(1)
    by simp
  from Cons.IH [OF this s1(2)] show ?case .
qed

lemma RequiresRestart_foldl:
  "RequiresRestart w \<Longrightarrow>
   RequiresRestart (foldl (\<lambda>w' (sub, from, to). notifyListener w' sub from to) w gs)"
  by (induction gs arbitrary: w) (auto simp: RequiresRestart_notifyListener)

lemma Wait_sets:
  "(sub, from, to) \<in> set gs \<Longrightarrow> \<not> CommitConfiguration sub from to \<Longrightarrow>
   RequiresRestart (foldl (\<lambda>w' (sub, from, to). notifyListener w' sub from to) w gs)"
proof (induction gs arbitrary: w)
  case Nil
  then show ?case by simp
next
  case (Cons g gs)
  show ?case
  proof (cases "g = (sub, from, to)")
    case True
    then show ?thesis
      using Cons.prems(2) by (simp add: RequiresRestart_foldl notifyListener_sets)
  next
    case False
    with Cons.prems have "(sub, from, to) \<in> set gs" by simp
    from Cons.IH [OF this Cons.prems(2)] show ?thesis by simp
  qed
qed

lemma perform_committed:
  assumes "perform clean w t = (wt, None, w')" and "proposed w t = Some to"
  shows "wt = wg (map (\<lambda>sub. (sub, cfg w, cfg w')) (subs w))"
  using assms
  by (auto simp: perform_replaceLocked replaceLocked_def notifyListeners_def Let_def
      split: sum.splits option.splits)

text \<open>
  C6. When a transition is committed (it returns no error) and a subscriber's
  \<^verbatim>\<open>CommitConfiguration\<close> returns false for it, a goroutine for that subscriber has been
  started, running it sets \<^verbatim>\<open>RequiresRestart\<close> whatever the wrapper has become meanwhile,
  and the flag is set once the waiter has been waited for. Once the flag is set, no
  sequence of calls on the wrapper and of goroutine runs, in any interleaving, clears it.
\<close>

theorem requiresRestart_latches:
  "(proposed w t = Some to \<and> perform clean w t = (wt, None, w') \<and> sub \<in> set (subs w)
      \<and> \<not> CommitConfiguration sub (cfg w) (cfg w')
    \<longrightarrow> (sub, cfg w, cfg w') \<in> set (goroutines wt)
        \<and> RequiresRestart (notifyListener w2 sub (cfg w) (cfg w'))
        \<and> RequiresRestart (Wait w' wt))
   \<and> (RequiresRestart w3 \<and> steps clean (w3, gs) as = Some (w4, gs') \<longrightarrow> RequiresRestart w4)"
proof (intro conjI impI)
  assume a: "proposed w t = Some to \<and> perform clean w t = (wt, None, w') \<and> sub \<in> set (subs w)
      \<and> \<not> CommitConfiguration sub (cfg w) (cfg w')"
  then have wt: "wt = wg (map (\<lambda>sub. (sub, cfg w, cfg w')) (subs w))"
    using perform_committed by blast
  with a show g: "(sub, cfg w, cfg w') \<in> set (goroutines wt)" by auto
  from a show "RequiresRestart (notifyListener w2 sub (cfg w) (cfg w'))"
    by (simp add: notifyListener_sets)
  from a g show "RequiresRestart (Wait w' wt)"
    unfolding Wait_def by (blast intro: Wait_sets)
next
  assume "RequiresRestart w3 \<and> steps clean (w3, gs) as = Some (w4, gs')"
  then show "RequiresRestart w4"
    using RequiresRestart_steps [of "(w3, gs)" clean as "(w4, gs')"] by simp
qed

theorem requiresRestart_latches_witness:
  "\<not> RequiresRestart restartingWrapper
   \<and> perform cleanOK restartingWrapper (DoReplace zeroConfiguration)
       = (wg [(restarter, oneDeviceCfg, zeroConfiguration)], None,
          restartingWrapper\<lparr>cfg := zeroConfiguration\<rparr>)
   \<and> RequiresRestart (Wait (restartingWrapper\<lparr>cfg := zeroConfiguration\<rparr>)
        (wg [(restarter, oneDeviceCfg, zeroConfiguration)]))
   \<and> steps cleanOK (restartingWrapper, [])
        [Transition (DoReplace zeroConfiguration), RunGoroutine 0, DoUnsubscribe restarter,
         Transition (DoReplace oneDeviceCfg)]
       = Some ((Wrap ''config.xml'' oneDeviceCfg)\<lparr>requiresRestart := 1\<rparr>, [])
   \<and> RequiresRestart ((Wrap ''config.xml'' oneDeviceCfg)\<lparr>requiresRestart := 1\<rparr>)"
proof -
  let ?w' = "restartingWrapper\<lparr>cfg := zeroConfiguration\<rparr>"
  let ?wt = "wg [(restarter, oneDeviceCfg, zeroConfiguration)]"
  have n: "\<not> RequiresRestart restartingWrapper"
    by (simp add: RequiresRestart_def restartingWrapper_def Subscribe_def Wrap_def)
  have p: "perform cleanOK restartingWrapper (DoReplace zeroConfiguration) = (?wt, None, ?w')"
    by (simp add: Replace_def replaceLocked_def cleanOK_def restartingWrapper_def Subscribe_def
        Wrap_def restarter_def notifyListeners_def Let_def)
  have c: "cfg restartingWrapper = oneDeviceCfg" "cfg ?w' = zeroConfiguration"
    "restarter \<in> set (subs restartingWrapper)"
    "\<not> CommitConfiguration restarter oneDeviceCfg zeroConfiguration"
    by (simp_all add: restartingWrapper_def Subscribe_def Wrap_def restarter_def)
  have r: "steps cleanOK (restartingWrapper, [])
        [Transition (DoReplace zeroConfiguration), RunGoroutine 0, DoUnsubscribe restarter,
         Transition (DoReplace oneDeviceCfg)]
       = Some ((Wrap ''config.xml'' oneDeviceCfg)\<lparr>requiresRestart := 1\<rparr>, [])"
    by (simp add: Replace_def replaceLocked_def cleanOK_def restartingWrapper_def Subscribe_def
        Wrap_def restarter_def notifyListeners_def Let_def notifyListener_def
        setRequiresRestart_def Unsubscribe_def)
  note t = requiresRestart_latches [of restartingWrapper "DoReplace zeroConfiguration"
      zeroConfiguration cleanOK ?wt ?w' restarter ?w' ?w' "[]"
      "[DoUnsubscribe restarter, Transition (DoReplace oneDeviceCfg)]"
      "(Wrap ''config.xml'' oneDeviceCfg)\<lparr>requiresRestart := 1\<rparr>" "[]"]
  have w: "RequiresRestart (Wait ?w' ?wt)"
    using t p c by simp
  have "RequiresRestart ((Wrap ''config.xml'' oneDeviceCfg)\<lparr>requiresRestart := 1\<rparr>)"
    by (simp add: RequiresRestart_def)
  with n p w r show ?thesis by simp
qed


section \<open>Short identities and start-up\<close>

lemma Short_byte:
  "ucast (drop_bit 56 (Short n)) = n ! 0"
  "ucast (drop_bit 48 (Short n)) = n ! 1"
  "ucast (drop_bit 40 (Short n)) = n ! 2"
  "ucast (drop_bit 32 (Short n)) = n ! 3"
  "ucast (drop_bit 24 (Short n)) = n ! 4"
  "ucast (drop_bit 16 (Short n)) = n ! 5"
  "ucast (drop_bit 8 (Short n)) = n ! 6"
  "ucast (Short n) = n ! 7"
  by (rule bit_word_eqI; auto simp: Short_def bit_simps dest: bit_imp_le_length)+

lemma Short_bytes_eq:
  assumes "Short a = Short b" and "i < 8"
  shows "a ! i = b ! i"
proof -
  have "\<forall>j\<in>{0, 1, 2, 3, 4, 5, 6, 7}. a ! j = b ! j"
    using Short_byte [of a] Short_byte [of b] assms(1) by simp
  moreover have "i \<in> {0, 1, 2, 3, 4, 5, 6, 7}"
    using assms(2) by auto
  ultimately show ?thesis by blast
qed

lemma Short_take: "8 \<le> length n \<Longrightarrow> Short (take 8 n) = Short n"
  by (simp add: Short_def)

lemma Short_eq_iff:
  assumes "8 \<le> length a" and "8 \<le> length b"
  shows "(Short a = Short b) = (take 8 a = take 8 b)"
proof
  assume e: "Short a = Short b"
  show "take 8 a = take 8 b"
  proof (rule nth_equalityI)
    show "length (take 8 a) = length (take 8 b)" using assms by simp
  next
    fix i assume "i < length (take 8 a)"
    then have "i < 8" by simp
    with Short_bytes_eq [OF e] show "take 8 a ! i = take 8 b ! i" by simp
  qed
next
  assume "take 8 a = take 8 b"
  then have "Short (take 8 a) = Short (take 8 b)" by simp
  with assms show "Short a = Short b" by (simp add: Short_take)
qed

lemma checkShortIDs_loop_None:
  "distinct ks \<Longrightarrow>
   (checkShortIDs_loop ex ks = None) = ((\<forall>k\<in>set ks. Short k \<notin> dom ex) \<and> inj_on Short (set ks))"
proof (induction ks arbitrary: ex)
  case Nil
  then show ?case by simp
next
  case (Cons k ks)
  show ?case
  proof (cases "ex (Short k)")
    case (Some other)
    then show ?thesis by auto
  next
    case None
    from Cons.prems have d: "distinct ks" and n: "k \<notin> set ks" by simp_all
    have "(checkShortIDs_loop ex (k # ks) = None)
          = (checkShortIDs_loop (ex(Short k \<mapsto> k)) ks = None)"
      using None by simp
    also have "\<dots> = ((\<forall>k'\<in>set ks. Short k' \<notin> dom (ex(Short k \<mapsto> k))) \<and> inj_on Short (set ks))"
      by (rule Cons.IH [OF d])
    also have "\<dots> = ((\<forall>k'\<in>set (k # ks). Short k' \<notin> dom ex) \<and> inj_on Short (set (k # ks)))"
    proof -
      have i: "inj_on Short (set (k # ks)) = (inj_on Short (set ks) \<and> Short k \<notin> Short ` set ks)"
        using n by simp
      have e: "Short k \<notin> dom ex" using None by (simp add: domIff)
      show ?thesis unfolding i using e by (simp add: image_iff) metis
    qed
    finally show ?thesis .
  qed
qed

lemma checkShortIDs_error_iff:
  assumes "distinct ks"
  shows "(checkShortIDs ks \<noteq> None) = (\<exists>a\<in>set ks. \<exists>b\<in>set ks. a \<noteq> b \<and> Short a = Short b)"
  using checkShortIDs_loop_None [OF assms, of Map.empty]
  by (auto simp: checkShortIDs_def inj_on_def)

lemma dom_buildDeviceMap_aux:
  "dom (foldl (\<lambda>m dev. m(dc_DeviceID dev \<mapsto> dev)) m0 ds) = dom m0 \<union> dc_DeviceID ` set ds"
  by (induction ds arbitrary: m0) auto

lemma dom_buildDeviceMap: "dom (buildDeviceMap ds) = dc_DeviceID ` set ds"
  by (simp add: buildDeviceMap_def dom_buildDeviceMap_aux)

lemma dom_Devices_fresh:
  "deviceMap w = None \<Longrightarrow> dom (fst (Devices w)) = dc_DeviceID ` set (cfg_Devices (cfg w))"
  by (simp add: Devices_def Let_def dom_buildDeviceMap)

lemma startup_checkShortIDs_fails:
  assumes "checkShortIDs (env_deviceKeys env) = Some e"
  shows "fst (startup env) = Some e" and "\<not> list_ex startsFolder (snd (startup env))"
  using assms by (simp_all add: startup_def Let_def)

lemma Start_checkShortIDs_fails:
  assumes "checkShortIDs (env_deviceKeys env) = Some e"
  shows "Start env New = Inr ((stopped ExitError (Some e))\<lparr>startOnce := True\<rparr>, snd (startup env))"
proof -
  obtain tr where s: "startup env = (Some e, tr)"
    using startup_checkShortIDs_fails(1) [OF assms] by (cases "startup env") auto
  then show ?thesis
    by (simp add: Start_def New_def stopWithErr_def stopped_def ExitSuccess_def ExitError_def Let_def)
qed

text \<open>
  C3. Let the wrapper's device cache be empty, as \<^verbatim>\<open>Wrap\<close> and every transition leave it
  (nothing calls \<^verbatim>\<open>Devices\<close> before the application starts), and let the range over
  \<^verbatim>\<open>cfg.Devices()\<close> yield each key once, each of 32 bytes. Then \<^verbatim>\<open>checkShortIDs\<close>
  returns an error exactly when two different configured devices have the same short
  identity, that is, the same first eight bytes. When it returns an error, \<^verbatim>\<open>startup\<close>
  returns that error, having created no model and added or started no folder;
  \<^verbatim>\<open>Start\<close> stops the application with \<^verbatim>\<open>ExitError\<close> and that error without starting
  \<^verbatim>\<open>run\<close>; and a later \<^verbatim>\<open>Start\<close>, whatever the environment then, does nothing.
\<close>

theorem checkShortIDs_startup:
  assumes "deviceMap (env_cfg env) = None"
    and "distinct (env_deviceKeys env)"
    and "set (env_deviceKeys env) = dom (fst (Devices (env_cfg env)))"
    and "\<forall>d\<in>set (env_deviceKeys env). length d = 32"
  shows "((checkShortIDs (env_deviceKeys env) \<noteq> None)
          = (\<exists>a b. a \<in> dc_DeviceID ` set (cfg_Devices (cfg (env_cfg env)))
                \<and> b \<in> dc_DeviceID ` set (cfg_Devices (cfg (env_cfg env)))
                \<and> a \<noteq> b \<and> Short a = Short b \<and> take 8 a = take 8 b))
       \<and> (checkShortIDs (env_deviceKeys env) = Some e \<longrightarrow>
             fst (startup env) = Some e
             \<and> \<not> list_ex startsFolder (snd (startup env))
             \<and> GoRun \<notin> set (snd (startup env))
             \<and> Start env New
                 = Inr ((stopped ExitError (Some e))\<lparr>startOnce := True\<rparr>, snd (startup env))
             \<and> Start env' ((stopped ExitError (Some e))\<lparr>startOnce := True\<rparr>)
                 = Inr ((stopped ExitError (Some e))\<lparr>startOnce := True\<rparr>, []))"
proof (intro conjI impI)
  have k: "set (env_deviceKeys env) = dc_DeviceID ` set (cfg_Devices (cfg (env_cfg env)))"
    using assms(1,3) by (simp add: dom_Devices_fresh)
  have "(checkShortIDs (env_deviceKeys env) \<noteq> None)
       = (\<exists>a\<in>set (env_deviceKeys env). \<exists>b\<in>set (env_deviceKeys env). a \<noteq> b \<and> Short a = Short b)"
    by (rule checkShortIDs_error_iff [OF assms(2)])
  also have "\<dots> = (\<exists>a\<in>set (env_deviceKeys env). \<exists>b\<in>set (env_deviceKeys env).
                     a \<noteq> b \<and> Short a = Short b \<and> take 8 a = take 8 b)"
    using assms(4) by (auto simp: Short_eq_iff)
  finally show "(checkShortIDs (env_deviceKeys env) \<noteq> None)
         = (\<exists>a b. a \<in> dc_DeviceID ` set (cfg_Devices (cfg (env_cfg env)))
                \<and> b \<in> dc_DeviceID ` set (cfg_Devices (cfg (env_cfg env)))
                \<and> a \<noteq> b \<and> Short a = Short b \<and> take 8 a = take 8 b)"
    unfolding k by blast
next
  assume c: "checkShortIDs (env_deviceKeys env) = Some e"
  from startup_checkShortIDs_fails [OF c]
  show "fst (startup env) = Some e" and "\<not> list_ex startsFolder (snd (startup env))" .
  show "GoRun \<notin> set (snd (startup env))"
    using c by (simp add: startup_def Let_def)
  show "Start env New
          = Inr ((stopped ExitError (Some e))\<lparr>startOnce := True\<rparr>, snd (startup env))"
    by (rule Start_checkShortIDs_fails [OF c])
  show "Start env' ((stopped ExitError (Some e))\<lparr>startOnce := True\<rparr>)
          = Inr ((stopped ExitError (Some e))\<lparr>startOnce := True\<rparr>, [])"
    by (simp add: Start_def)
qed

lemma clash_value: "checkShortIDs (env_deviceKeys clashEnv) = Some (ShortIDConflict device1 device1')"
  by (simp add: clashEnv_def checkShortIDs_def Short_def device1_def device1'_def nth_append)

lemma clash_startup:
  "startup clashEnv = (Some (ShortIDConflict device1 device1'),
     [ServeBackground, LogEvent ''Starting'', Warn (ShortIDConflict device1 device1')])"
  using clash_value by (simp add: startup_def Let_def) (simp add: clashEnv_def)


theorem checkShortIDs_startup_witness:
  "deviceMap (env_cfg clashEnv) = None
   \<and> distinct (env_deviceKeys clashEnv)
   \<and> set (env_deviceKeys clashEnv) = dom (fst (Devices (env_cfg clashEnv)))
   \<and> list_all (\<lambda>d. length d = 32) (env_deviceKeys clashEnv)
   \<and> checkShortIDs (env_deviceKeys clashEnv) = Some (ShortIDConflict device1 device1')
   \<and> device1 \<noteq> device1' \<and> take 8 device1 = take 8 device1'
   \<and> fst (startup clashEnv) = Some (ShortIDConflict device1 device1')
   \<and> \<not> list_ex startsFolder (snd (startup clashEnv))
   \<and> Start clashEnv New
       = Inr ((stopped ExitError (Some (ShortIDConflict device1 device1')))\<lparr>startOnce := True\<rparr>,
              [ServeBackground, LogEvent ''Starting'', Warn (ShortIDConflict device1 device1')])"
proof -
  have h1: "deviceMap (env_cfg clashEnv) = None"
    by (simp add: clashEnv_def Wrap_def)
  have h2: "distinct (env_deviceKeys clashEnv)"
    by code_simp
  have h3: "set (env_deviceKeys clashEnv) = dom (fst (Devices (env_cfg clashEnv)))"
    by (auto simp: clashEnv_def Wrap_def Devices_def buildDeviceMap_def clashCfg_def
        zeroDevice_def Let_def)
  have h4: "\<forall>d\<in>set (env_deviceKeys clashEnv). length d = 32"
    by (simp add: clashEnv_def device1_def device1'_def)
  have t: "device1 \<noteq> device1'" "take 8 device1 = take 8 device1'"
    by code_simp+
  from checkShortIDs_startup [OF h1 h2 h3 h4, of "ShortIDConflict device1 device1'"]
    clash_value clash_startup h1 h2 h3 h4 t
  show ?thesis by (simp add: list_all_iff)
qed


section \<open>Requests\<close>

lemma Request_ok:
  assumes "find (\<lambda>f. fc_ID f = folder) (cfg_Folders c) = Some f" and "SharedWith f deviceID"
    and "\<not> unsafeName name" and "d folder name = Some content"
    and "0 \<le> offset" and "0 < sz" and "offset + sz \<le> int (length content)"
  shows "Request c d deviceID folder name sz offset
           = Inr (take (nat sz) (drop (nat offset) content))"
  using assms by (simp add: Request_def)

text \<open>
  C4. On a disk whose names are folder-relative and free of NUL, \<^verbatim>\<open>Request\<close> from a
  device for a folder and a name returns an error when the folder is not shared with the
  device (or is unknown), when the name does not exist in the folder, when the name has a
  \<^verbatim>\<open>..\<close> component, when the offset is negative, when the size is zero or negative, and
  when offset plus size goes past the end of the stored file. In every other case it
  returns the bytes of the file on the local disk from \<open>offset\<close> on, as many as
  requested.
\<close>

theorem Request_spec:
  assumes "diskNamesOK d"
  shows
  "((\<forall>f. find (\<lambda>f. fc_ID f = folder) (cfg_Folders c) = Some f \<longrightarrow> \<not> SharedWith f deviceID)
      \<or> d folder name = None
      \<or> ''..'' \<in> set (splitPath name)
      \<or> offset < 0
      \<or> sz \<le> 0
      \<or> (\<exists>content. d folder name = Some content \<and> int (length content) < offset + sz)
     \<longrightarrow> isl (Request c d deviceID folder name sz offset))
   \<and> (find (\<lambda>f. fc_ID f = folder) (cfg_Folders c) = Some f \<and> SharedWith f deviceID
        \<and> d folder name = Some content \<and> ''..'' \<notin> set (splitPath name)
        \<and> 0 \<le> offset \<and> 0 < sz \<and> offset + sz \<le> int (length content)
     \<longrightarrow> Request c d deviceID folder name sz offset
           = Inr (take (nat sz) (drop (nat offset) content))
         \<and> int (length (take (nat sz) (drop (nat offset) content))) = sz)"
proof (intro conjI impI)
  assume "(\<forall>f. find (\<lambda>f. fc_ID f = folder) (cfg_Folders c) = Some f \<longrightarrow> \<not> SharedWith f deviceID)
      \<or> d folder name = None
      \<or> ''..'' \<in> set (splitPath name)
      \<or> offset < 0
      \<or> sz \<le> 0
      \<or> (\<exists>content. d folder name = Some content \<and> int (length content) < offset + sz)"
  then show "isl (Request c d deviceID folder name sz offset)"
    by (auto simp: Request_def unsafeName_def split: option.splits)
next
  assume a: "find (\<lambda>f. fc_ID f = folder) (cfg_Folders c) = Some f \<and> SharedWith f deviceID
        \<and> d folder name = Some content \<and> ''..'' \<notin> set (splitPath name)
        \<and> 0 \<le> offset \<and> 0 < sz \<and> offset + sz \<le> int (length content)"
  with assms have "\<not> unsafeName name"
    by (auto simp: unsafeName_def diskNamesOK_def)
  with a show "Request c d deviceID folder name sz offset
           = Inr (take (nat sz) (drop (nat offset) content))"
    by (simp add: Request_ok)
  from a show "int (length (take (nat sz) (drop (nat offset) content))) = sz"
    by auto
qed

text \<open>The calls of \<^verbatim>\<open>TestRequest\<close>, on a folder that holds the test's file.\<close>

lemma TestRequest:
  "Request defaultCfg defaultDisk device1 ''default'' ''foo'' 6 0 = Inr (bytes ''foobar'')"
  "isl (Request defaultCfg defaultDisk device2 ''default'' ''foo'' 6 0)"
  "isl (Request defaultCfg defaultDisk device1 ''default'' ''nonexistent'' 6 0)"
  "isl (Request defaultCfg defaultDisk device1 ''default'' ''../walk.go'' 6 0)"
  "isl (Request defaultCfg defaultDisk device1 ''default'' ''foo'' (- 4) 0)"
  "isl (Request defaultCfg defaultDisk device1 ''default'' ''foo'' 42 0)"
  by (simp_all add: Request_def defaultCfg_def defaultDisk_def zeroFolder_def SharedWith_def
      unsafeName_def bytes_def device1_def device2_def)

theorem Request_spec_witness:
  "diskNamesOK defaultDisk
   \<and> isl (Request defaultCfg defaultDisk device1 ''default'' ''foo'' 0 0)
   \<and> isl (Request defaultCfg defaultDisk device1 ''default'' ''foo'' 6 2)
   \<and> Request defaultCfg defaultDisk device1 ''default'' ''foo'' 3 3 = Inr (bytes ''bar'')"
proof -
  have ok: "diskNamesOK defaultDisk"
    by (auto simp: diskNamesOK_def defaultDisk_def split: if_splits)
  have f: "find (\<lambda>f. fc_ID f = ''default'') (cfg_Folders defaultCfg)
             = Some ((zeroFolder ''default'')\<lparr>fc_Devices :=
                  [\<lparr>fd_DeviceID = device1, fd_IntroducedBy = EmptyDeviceID\<rparr>]\<rparr>)"
    by (simp add: defaultCfg_def zeroFolder_def)
  have s: "SharedWith ((zeroFolder ''default'')\<lparr>fc_Devices :=
                  [\<lparr>fd_DeviceID = device1, fd_IntroducedBy = EmptyDeviceID\<rparr>]\<rparr>) device1"
    by (simp add: SharedWith_def)
  have c: "defaultDisk ''default'' ''foo'' = Some (bytes ''foobar'' @ [10])"
    by (simp add: defaultDisk_def)
  have n: "''..'' \<notin> set (splitPath ''foo'')" by simp
  note t = Request_spec [OF ok, of "''default''" defaultCfg]
  have a: "isl (Request defaultCfg defaultDisk device1 ''default'' ''foo'' 0 0)"
    using t [of device1 "''foo''" 0 0] by simp
  have b: "isl (Request defaultCfg defaultDisk device1 ''default'' ''foo'' 6 2)"
    using t [of device1 "''foo''" 2 6] c by (simp add: bytes_def)
  have r: "Request defaultCfg defaultDisk device1 ''default'' ''foo'' 3 3
             = Inr (take 3 (drop 3 (bytes ''foobar'' @ [10])))"
    using t [of device1 "''foo''" 3 3 _ "bytes ''foobar'' @ [10]"] f s c n by (simp add: bytes_def)
  have "take 3 (drop 3 (bytes ''foobar'' @ [10])) = bytes ''bar''"
    by (simp add: bytes_def)
  with ok a b r show ?thesis by simp
qed


section \<open>Auto-accepted folders\<close>

lemma find_setFolder1:
  "find (\<lambda>f. fc_ID f = fc_ID fld) (setFolder1 fs fld) = Some fld"
  by (induction fs) auto

lemma Folder_SetFolder_accepted:
  assumes "clean (SetFolder_newCfg w fld) = Inr (SetFolder_newCfg w fld)"
    and "verifyLoop (subs w) (cfg w) (SetFolder_newCfg w fld) = None"
  shows "Folder (snd (snd (SetFolder clean w fld))) (fc_ID fld) = Some fld"
  using assms
  by (simp add: SetFolder_def replaceLocked_def Let_def Folder_def SetFolder_newCfg_def
      find_setFolder1)

lemma SharedWith_newFolderConfiguration:
  "SharedWith (newFolderConfiguration i label p device) device"
  by (simp add: SharedWith_def newFolderConfiguration_def)

text \<open>
  C5, as stated, fails where entries named by the label and by the ID both exist: no
  folder configuration is created, as \<^verbatim>\<open>TestAutoAcceptNameConflict\<close> expects.
\<close>

theorem autoAccept_counterexample:
  "dc_AutoAcceptFolders autoAcceptDevice
   \<and> Folder (Wrap ''config.xml'' defaultAutoAcceptCfg) (pf_ID offeredFolder) = None
   \<and> bothTaken (keepName (pf_Label offeredFolder))
   \<and> autoAcceptFolder keepName bothTaken (Wrap ''config.xml'' defaultAutoAcceptCfg)
        autoAcceptDevice offeredFolder = None
   \<and> handleAutoAccepts cleanOK keepName bothTaken (Wrap ''config.xml'' defaultAutoAcceptCfg)
        autoAcceptDevice offeredFolder
       = (noopWaiter, None, Wrap ''config.xml'' defaultAutoAcceptCfg)"
  by (simp add: autoAcceptFolder_def handleAutoAccepts_def autoAcceptDevice_def Folder_def
      Wrap_def defaultAutoAcceptCfg_def zeroConfiguration_def offeredFolder_def bothTaken_def
      keepName_def)

text \<open>
  C5, amended. When the peer's device configuration has \<^verbatim>\<open>AutoAcceptFolders\<close> and the
  offered folder ID is unknown locally: if no entry named by the (sanitized) label exists
  under the default folder path, a folder configuration with that ID and label, shared
  with the peer, is created with the label as directory name; if such an entry exists and
  none named by the (sanitized) ID does, it is created with the ID as directory name; if
  both exist, none is created. A created configuration that the cleaning leaves as it is
  and every subscriber accepts is the wrapper's folder of that ID afterwards.
\<close>

theorem autoAccept_path:
  assumes "dc_AutoAcceptFolders deviceCfg" and "Folder w (pf_ID folder) = None"
  shows
  "(\<not> exists (sanitizePath (pf_Label folder)) \<longrightarrow>
      autoAcceptFolder sanitizePath exists w deviceCfg folder
        = Some (newFolderConfiguration (pf_ID folder) (pf_Label folder)
                 (joinPath (opt_DefaultFolderPath (Options w)) (sanitizePath (pf_Label folder)))
                 (dc_DeviceID deviceCfg)))
   \<and> (exists (sanitizePath (pf_Label folder)) \<and> \<not> exists (sanitizePath (pf_ID folder)) \<longrightarrow>
      autoAcceptFolder sanitizePath exists w deviceCfg folder
        = Some (newFolderConfiguration (pf_ID folder) (pf_Label folder)
                 (joinPath (opt_DefaultFolderPath (Options w)) (sanitizePath (pf_ID folder)))
                 (dc_DeviceID deviceCfg)))
   \<and> (exists (sanitizePath (pf_Label folder)) \<and> exists (sanitizePath (pf_ID folder)) \<longrightarrow>
      autoAcceptFolder sanitizePath exists w deviceCfg folder = None)
   \<and> (autoAcceptFolder sanitizePath exists w deviceCfg folder = Some fcfg \<longrightarrow>
      fc_ID fcfg = pf_ID folder \<and> fc_Label fcfg = pf_Label folder
      \<and> SharedWith fcfg (dc_DeviceID deviceCfg)
      \<and> (clean (SetFolder_newCfg w fcfg) = Inr (SetFolder_newCfg w fcfg)
           \<and> verifyLoop (subs w) (cfg w) (SetFolder_newCfg w fcfg) = None \<longrightarrow>
         Folder (snd (snd (handleAutoAccepts clean sanitizePath exists w deviceCfg folder)))
           (pf_ID folder) = Some fcfg))"
proof (intro conjI impI)
  assume "\<not> exists (sanitizePath (pf_Label folder))"
  with assms show "autoAcceptFolder sanitizePath exists w deviceCfg folder
        = Some (newFolderConfiguration (pf_ID folder) (pf_Label folder)
                 (joinPath (opt_DefaultFolderPath (Options w)) (sanitizePath (pf_Label folder)))
                 (dc_DeviceID deviceCfg))"
    by (simp add: autoAcceptFolder_def)
next
  assume "exists (sanitizePath (pf_Label folder)) \<and> \<not> exists (sanitizePath (pf_ID folder))"
  with assms show "autoAcceptFolder sanitizePath exists w deviceCfg folder
        = Some (newFolderConfiguration (pf_ID folder) (pf_Label folder)
                 (joinPath (opt_DefaultFolderPath (Options w)) (sanitizePath (pf_ID folder)))
                 (dc_DeviceID deviceCfg))"
    by (simp add: autoAcceptFolder_def)
next
  assume "exists (sanitizePath (pf_Label folder)) \<and> exists (sanitizePath (pf_ID folder))"
  with assms show "autoAcceptFolder sanitizePath exists w deviceCfg folder = None"
    by (simp add: autoAcceptFolder_def)
next
  assume a: "autoAcceptFolder sanitizePath exists w deviceCfg folder = Some fcfg"
  with assms obtain p where f: "fcfg = newFolderConfiguration (pf_ID folder) (pf_Label folder) p
      (dc_DeviceID deviceCfg)"
    by (auto simp: autoAcceptFolder_def split: if_splits option.splits)
  show i: "fc_ID fcfg = pf_ID folder" and "fc_Label fcfg = pf_Label folder"
    by (simp_all add: f newFolderConfiguration_def)
  show "SharedWith fcfg (dc_DeviceID deviceCfg)"
    by (simp add: f SharedWith_newFolderConfiguration)
  assume "clean (SetFolder_newCfg w fcfg) = Inr (SetFolder_newCfg w fcfg)
           \<and> verifyLoop (subs w) (cfg w) (SetFolder_newCfg w fcfg) = None"
  then have "Folder (snd (snd (SetFolder clean w fcfg))) (fc_ID fcfg) = Some fcfg"
    by (simp add: Folder_SetFolder_accepted)
  with a i show "Folder (snd (snd (handleAutoAccepts clean sanitizePath exists w deviceCfg folder)))
           (pf_ID folder) = Some fcfg"
    by (simp add: handleAutoAccepts_def)
qed

theorem autoAccept_path_witness:
  "dc_AutoAcceptFolders autoAcceptDevice
   \<and> Folder (Wrap ''config.xml'' defaultAutoAcceptCfg) (pf_ID offeredFolder) = None
   \<and> labelTaken (keepName (pf_Label offeredFolder))
   \<and> \<not> labelTaken (keepName (pf_ID offeredFolder))
   \<and> autoAcceptFolder keepName labelTaken (Wrap ''config.xml'' defaultAutoAcceptCfg)
        autoAcceptDevice offeredFolder
       = Some (newFolderConfiguration ''id'' ''label'' ''/id'' device1)
   \<and> Folder (snd (snd (handleAutoAccepts cleanOK keepName labelTaken
               (Wrap ''config.xml'' defaultAutoAcceptCfg) autoAcceptDevice offeredFolder))) ''id''
       = Some (newFolderConfiguration ''id'' ''label'' ''/id'' device1)"
proof -
  let ?w = "Wrap ''config.xml'' defaultAutoAcceptCfg"
  let ?f = "newFolderConfiguration ''id'' ''label'' ''/id'' device1"
  have h1: "dc_AutoAcceptFolders autoAcceptDevice"
    by (simp add: autoAcceptDevice_def)
  have h2: "Folder ?w (pf_ID offeredFolder) = None"
    by (simp add: Folder_def Wrap_def defaultAutoAcceptCfg_def zeroConfiguration_def)
  have h3: "labelTaken (keepName (pf_Label offeredFolder))"
    "\<not> labelTaken (keepName (pf_ID offeredFolder))"
    by (simp_all add: labelTaken_def keepName_def offeredFolder_def)
  note t = autoAccept_path [OF h1 h2, of labelTaken keepName ?f cleanOK]
  have v: "autoAcceptFolder keepName labelTaken ?w autoAcceptDevice offeredFolder = Some ?f"
    using t h3
    by (simp add: joinPath_def Options_def Wrap_def defaultAutoAcceptCfg_def
        zeroConfiguration_def keepName_def offeredFolder_def autoAcceptDevice_def zeroDevice_def)
  have "cleanOK (SetFolder_newCfg ?w ?f) = Inr (SetFolder_newCfg ?w ?f)"
    "verifyLoop (subs ?w) (cfg ?w) (SetFolder_newCfg ?w ?f) = None"
    by (simp_all add: cleanOK_def Wrap_def)
  with t v have "Folder (snd (snd (handleAutoAccepts cleanOK keepName labelTaken ?w
      autoAcceptDevice offeredFolder))) ''id'' = Some ?f"
    by (simp add: offeredFolder_def)
  with h1 h2 h3 v show ?thesis by simp
qed

text \<open>
  The runs of \<^verbatim>\<open>TestAutoAcceptExistingFolder\<close> and \<^verbatim>\<open>TestAutoAcceptAlreadyShared\<close>:
  a known folder becomes shared with the peer and keeps its path; a folder already shared
  with the peer stays as it is.
\<close>

lemma TestAutoAcceptExistingFolder:
  "Folder (snd (snd (handleAutoAccepts cleanOK keepName labelTaken
      (Wrap ''config.xml'' existingFolderCfg) autoAcceptDevice offeredFolder))) ''id''
   = Some ((zeroFolder ''id'')\<lparr>fc_Path := ''idOther'',
        fc_Devices := [\<lparr>fd_DeviceID = device1, fd_IntroducedBy = EmptyDeviceID\<rparr>]\<rparr>)"
  by (simp add: handleAutoAccepts_def autoAcceptFolder_def autoAcceptDevice_def Folder_def
      Wrap_def existingFolderCfg_def defaultAutoAcceptCfg_def zeroConfiguration_def
      offeredFolder_def zeroFolder_def zeroDevice_def SharedWith_def SetFolder_def
      SetFolder_newCfg_def replaceLocked_def cleanOK_def notifyListeners_def Let_def)

lemma TestAutoAcceptAlreadyShared:
  "handleAutoAccepts cleanOK keepName labelTaken
     (Wrap ''config.xml'' (defaultAutoAcceptCfg\<lparr>cfg_Folders :=
        [(zeroFolder ''id'')\<lparr>fc_Path := ''id'',
           fc_Devices := [\<lparr>fd_DeviceID = device1, fd_IntroducedBy = EmptyDeviceID\<rparr>]\<rparr>]\<rparr>))
     autoAcceptDevice offeredFolder
   = (noopWaiter, None,
      Wrap ''config.xml'' (defaultAutoAcceptCfg\<lparr>cfg_Folders :=
        [(zeroFolder ''id'')\<lparr>fc_Path := ''id'',
           fc_Devices := [\<lparr>fd_DeviceID = device1, fd_IntroducedBy = EmptyDeviceID\<rparr>]\<rparr>]\<rparr>))"
  by (simp add: handleAutoAccepts_def autoAcceptFolder_def autoAcceptDevice_def Folder_def
      Wrap_def defaultAutoAcceptCfg_def zeroConfiguration_def offeredFolder_def zeroFolder_def
      zeroDevice_def SharedWith_def)

section \<open>Modification time window\<close>

lemma ModTimeEqual_window2:
  "ModTimeEqual t (t + second) (2 * second)" "\<not> ModTimeEqual t (t + 2 * second) (2 * second)"
  by (simp_all add: ModTimeEqual_def second_def)

text \<open>
  C7. With \<^verbatim>\<open>ModTimeWindowS = 2\<close> and a file in the index at some version: when only the
  modification time on disk has moved by one second, the rescan leaves the FileInfo, and so
  its version, as it is; when it has moved by two seconds, the rescan gives the FileInfo
  the version updated with the own short identity.
\<close>

theorem modTimeWindow_rescan:
  "rescan 2 self fi (Chtimes (statOf fi) (fi_Modified fi + second)) = fi
   \<and> fi_Version (rescan 2 self fi (Chtimes (statOf fi) (fi_Modified fi + second))) = fi_Version fi
   \<and> fi_Version (rescan 2 self fi (Chtimes (statOf fi) (fi_Modified fi + 2 * second)))
       = Update (fi_Version fi) self"
  using ModTimeEqual_window2 [of "fi_Modified fi"]
  by (simp add: rescan_def unchanged_def Chtimes_def statOf_def)

text \<open>The run of \<^verbatim>\<open>TestModTimeWindow\<close>: first scan, one second later, two seconds later.\<close>

lemma TestModTimeWindow:
  "fi_Version (rescan 2 self (rescan 2 self \<lparr>fi_Name = ''foo'', fi_Size = 0, fi_Permissions = 420,
        fi_Modified = t, fi_Version = Update [] self\<rparr>
      \<lparr>st_Size = 0, st_Mode = 420, st_ModTime = t + second\<rparr>)
      \<lparr>st_Size = 0, st_Mode = 420, st_ModTime = t + 2 * second\<rparr>)
   = Update (Update [] self) self"
  using ModTimeEqual_window2 [of t] by (simp add: rescan_def unchanged_def)

section \<open>Introducers\<close>

lemma shareFolder_ID: "fc_ID (foldl (shareFolder p) f pds) = fc_ID f"
  by (induction pds arbitrary: f) (auto simp: shareFolder_def)

lemma shareFolder_entries:
  "D \<notin> pd_ID ` set pds \<Longrightarrow>
   filter (\<lambda>e. fd_DeviceID e = D) (fc_Devices (foldl (shareFolder p) f pds))
     = filter (\<lambda>e. fd_DeviceID e = D) (fc_Devices f)"
  by (induction pds arbitrary: f) (auto simp: shareFolder_def)

lemma offeredDevices_listed:
  "pd \<in> set (offeredDevices self cm folder) \<Longrightarrow> listed cm folder (pd_ID pd)"
  by (auto simp: offeredDevices_def listed_def list_ex_iff)

lemma not_listed_not_offered:
  "\<not> listed cm folder D \<Longrightarrow> D \<notin> pd_ID ` set (offeredDevices self cm folder)"
  using offeredDevices_listed by blast

lemma SharedWith_filter:
  "SharedWith f D = (filter (\<lambda>e. fd_DeviceID e = D) (fc_Devices f) \<noteq> [])"
  by (auto simp: SharedWith_def list_ex_iff filter_empty_conv)

lemma unshare_not_shared:
  assumes "\<forall>e\<in>set (fc_Devices f). fd_DeviceID e = D \<longrightarrow> fd_IntroducedBy e = P"
    and "\<not> listed cm (fc_ID f) D"
  shows "\<not> SharedWith (unshare P cm f) D"
  using assms by (auto simp: SharedWith_def unshare_def dropped_def list_ex_iff)

lemma set_filter_eq:
  "filter Q xs = filter Q ys \<Longrightarrow> {x \<in> set xs. Q x} = {y \<in> set ys. Q y}"
  by (metis set_filter)



lemma introduced_folder:
  assumes "k < length (cfg_Folders c)" and "\<not> listed cm (fc_ID (cfg_Folders c ! k)) D"
  shows "fc_ID (cfg_Folders (handleIntroductions self P cm c) ! k) = fc_ID (cfg_Folders c ! k)"
    and "filter (\<lambda>e. fd_DeviceID e = D) (fc_Devices (cfg_Folders (handleIntroductions self P cm c) ! k))
         = filter (\<lambda>e. fd_DeviceID e = D) (fc_Devices (cfg_Folders c ! k))"
  using assms
  by (simp_all add: handleIntroductions_def shareFolder_ID shareFolder_entries
      not_listed_not_offered)

lemma deintroduced_folder:
  assumes "k < length (cfg_Folders c)"
    and "\<forall>e\<in>set (fc_Devices (cfg_Folders c ! k)). fd_DeviceID e = D \<longrightarrow> fd_IntroducedBy e = P"
    and "\<not> listed cm (fc_ID (cfg_Folders c ! k)) D"
  shows "fc_ID (cfg_Folders (handleDeintroductions P cm c) ! k) = fc_ID (cfg_Folders c ! k)"
    and "\<not> SharedWith (cfg_Folders (handleDeintroductions P cm c) ! k) D"
  using assms unshare_not_shared [of "cfg_Folders c ! k" D P cm]
  by (simp_all add: handleDeintroductions_def Let_def) (simp add: unshare_def)

lemma deintroduced_roster:
  assumes "k < length (cfg_Folders c)"
    and "SharedWith (cfg_Folders c ! k) D"
    and "\<forall>e\<in>set (fc_Devices (cfg_Folders c ! k)). fd_DeviceID e = D \<longrightarrow> fd_IntroducedBy e = P"
    and "\<not> listed cm (fc_ID (cfg_Folders c ! k)) D"
    and "\<forall>f\<in>set (cfg_Folders (handleDeintroductions P cm c)). \<not> SharedWith f D"
  shows "D \<notin> dc_DeviceID ` set (cfg_Devices (handleDeintroductions P cm c))"
proof -
  from assms(2) obtain e where e: "e \<in> set (fc_Devices (cfg_Folders c ! k))" "fd_DeviceID e = D"
    by (auto simp: SharedWith_def list_ex_iff)
  with assms(3,4) have "dropped P cm (cfg_Folders c ! k) e"
    by (simp add: dropped_def)
  with e assms(1) have w: "wasDropped P cm (cfg_Folders c) D"
    unfolding wasDropped_def list_ex_iff using nth_mem by blast
  from assms(5) have r: "\<not> retained (map (unshare P cm) (cfg_Folders c)) D"
    by (simp add: retained_def list_ex_iff handleDeintroductions_def Let_def)
  from w r show ?thesis
    by (auto simp: handleDeintroductions_def Let_def)
qed

text \<open>
  C2. Let P be a configured device flagged as introducer and without
  \<^verbatim>\<open>SkipIntroductionRemovals\<close>, let the folder at position \<open>k\<close> be shared with D, every
  entry of D in that folder being marked as introduced by P, and let P's message not list
  D for that folder. Then, in the configuration after the introducer step, the folder at
  position \<open>k\<close> is the same folder and is not shared with D; and if no folder is shared
  with D any more, D is not in the list of devices.
\<close>

theorem introducer_removal:
  assumes "find (\<lambda>d. dc_DeviceID d = P) (cfg_Devices c) = Some deviceCfg"
    and "dc_Introducer deviceCfg" and "\<not> dc_SkipIntroductionRemovals deviceCfg"
    and "k < length (cfg_Folders c)"
    and "SharedWith (cfg_Folders c ! k) D"
    and "\<forall>e\<in>set (fc_Devices (cfg_Folders c ! k)). fd_DeviceID e = D \<longrightarrow> fd_IntroducedBy e = P"
    and "\<not> listed cm (fc_ID (cfg_Folders c ! k)) D"
  shows "length (cfg_Folders (introducerStep self P cm c)) = length (cfg_Folders c)
     \<and> fc_ID (cfg_Folders (introducerStep self P cm c) ! k) = fc_ID (cfg_Folders c ! k)
     \<and> \<not> SharedWith (cfg_Folders (introducerStep self P cm c) ! k) D
     \<and> ((\<forall>f\<in>set (cfg_Folders (introducerStep self P cm c)). \<not> SharedWith f D)
          \<longrightarrow> D \<notin> dc_DeviceID ` set (cfg_Devices (introducerStep self P cm c)))"
proof -
  let ?c1 = "handleIntroductions self P cm c"
  have s: "introducerStep self P cm c = handleDeintroductions P cm ?c1"
    using assms(1-3) by (simp add: introducerStep_def)
  have l: "length (cfg_Folders ?c1) = length (cfg_Folders c)"
    by (simp add: handleIntroductions_def)
  then have k1: "k < length (cfg_Folders ?c1)" using assms(4) by simp
  note i = introduced_folder [OF assms(4,7), of self P]
  have n1: "\<not> listed cm (fc_ID (cfg_Folders ?c1 ! k)) D"
    using assms(7) i(1) by simp
  have "{e \<in> set (fc_Devices (cfg_Folders ?c1 ! k)). fd_DeviceID e = D}
        = {e \<in> set (fc_Devices (cfg_Folders c ! k)). fd_DeviceID e = D}"
    using i(2) by (rule set_filter_eq)
  with assms(6) have b1: "\<forall>e\<in>set (fc_Devices (cfg_Folders ?c1 ! k)).
      fd_DeviceID e = D \<longrightarrow> fd_IntroducedBy e = P"
    by blast
  have s1: "SharedWith (cfg_Folders ?c1 ! k) D"
    using assms(5) i(2) by (simp add: SharedWith_filter)
  note d = deintroduced_folder [OF k1 b1 n1]
  have "length (cfg_Folders (handleDeintroductions P cm ?c1)) = length (cfg_Folders c)"
    using l by (simp add: handleDeintroductions_def Let_def)
  moreover have "fc_ID (cfg_Folders (handleDeintroductions P cm ?c1) ! k) = fc_ID (cfg_Folders c ! k)"
    using d(1) i(1) by simp
  moreover note d(2)
  moreover have "(\<forall>f\<in>set (cfg_Folders (handleDeintroductions P cm ?c1)). \<not> SharedWith f D)
          \<longrightarrow> D \<notin> dc_DeviceID ` set (cfg_Devices (handleDeintroductions P cm ?c1))"
    using deintroduced_roster [OF k1 s1 b1 n1] by blast
  ultimately show ?thesis unfolding s by blast
qed

text \<open>
  The seven runs of \<^verbatim>\<open>TestIntroducer\<close> with what the test expects of each: the second
  device's entry in the list of devices, and whether each folder contains it.
\<close>

lemma TestIntroducer_added:
  "find (\<lambda>d. dc_DeviceID d = device2)
     (cfg_Devices (introducerStep myID device1 (offers2 ''folder1'')
        (twoFolders [introducer1] [fdev device1 EmptyDeviceID] [fdev device1 EmptyDeviceID])))
   = Some (introduced2\<lparr>dc_Introducer := True, dc_SkipIntroductionRemovals := True\<rparr>)"
  "map (\<lambda>f. contains f device2 device1)
     (cfg_Folders (introducerStep myID device1 (offers2 ''folder1'')
        (twoFolders [introducer1] [fdev device1 EmptyDeviceID] [fdev device1 EmptyDeviceID])))
   = [True, False]"
  by code_simp+

lemma TestIntroducer_moved:
  "find (\<lambda>d. dc_DeviceID d = device2)
     (cfg_Devices (introducerStep myID device1 (offers2 ''folder2'')
        (twoFolders [introducer1, introduced2]
           [fdev device1 EmptyDeviceID, fdev device2 device1] [fdev device1 EmptyDeviceID])))
   = Some introduced2"
  "map (\<lambda>f. contains f device2 EmptyDeviceID)
     (cfg_Folders (introducerStep myID device1 (offers2 ''folder2'')
        (twoFolders [introducer1, introduced2]
           [fdev device1 EmptyDeviceID, fdev device2 device1] [fdev device1 EmptyDeviceID])))
   = [False, True]"
  "map (\<lambda>f. contains f device2 device1)
     (cfg_Folders (introducerStep myID device1 (offers2 ''folder2'')
        (twoFolders [introducer1, introduced2]
           [fdev device1 EmptyDeviceID, fdev device2 device1] [fdev device1 EmptyDeviceID])))
   = [False, True]"
  by code_simp+

lemma TestIntroducer_removed:
  "find (\<lambda>d. dc_DeviceID d = device2)
     (cfg_Devices (introducerStep myID device1 \<lparr>cc_Folders = []\<rparr> bothIntroduced)) = None"
  "map (\<lambda>f. contains f device2 EmptyDeviceID)
     (cfg_Folders (introducerStep myID device1 \<lparr>cc_Folders = []\<rparr> bothIntroduced))
   = [False, False]"
  by code_simp+

lemma TestIntroducer_not_introducer:
  "introducerStep myID device1 \<lparr>cc_Folders = []\<rparr>
     (twoFolders [zeroDevice device1, introduced2]
        [fdev device1 EmptyDeviceID, fdev device2 device1]
        [fdev device1 EmptyDeviceID, fdev device2 device1])
   = twoFolders [zeroDevice device1, introduced2]
        [fdev device1 EmptyDeviceID, fdev device2 device1]
        [fdev device1 EmptyDeviceID, fdev device2 device1]"
  by (simp add: introducerStep_def twoFolders_def zeroDevice_def zeroConfiguration_def)

lemma TestIntroducer_skip_removals:
  "find (\<lambda>d. dc_DeviceID d = device2)
     (cfg_Devices (introducerStep myID device1 (offers2 ''folder2'')
        (twoFolders [introducer1\<lparr>dc_SkipIntroductionRemovals := True\<rparr>, introduced2]
           [fdev device1 EmptyDeviceID, fdev device2 device1] [fdev device1 EmptyDeviceID])))
   = Some introduced2"
  "map (\<lambda>f. contains f device2 device1)
     (cfg_Folders (introducerStep myID device1 (offers2 ''folder2'')
        (twoFolders [introducer1\<lparr>dc_SkipIntroductionRemovals := True\<rparr>, introduced2]
           [fdev device1 EmptyDeviceID, fdev device2 device1] [fdev device1 EmptyDeviceID])))
   = [True, True]"
  by code_simp+

lemma TestIntroducer_shared_without_introducer:
  "find (\<lambda>d. dc_DeviceID d = device2)
     (cfg_Devices (introducerStep myID device1 \<lparr>cc_Folders = []\<rparr>
        (twoFolders [introducer1, introduced2]
           [fdev device1 EmptyDeviceID, fdev device2 device1]
           [fdev device1 EmptyDeviceID, fdev device2 EmptyDeviceID])))
   = Some introduced2"
  "map (\<lambda>f. contains f device2 EmptyDeviceID)
     (cfg_Folders (introducerStep myID device1 \<lparr>cc_Folders = []\<rparr>
        (twoFolders [introducer1, introduced2]
           [fdev device1 EmptyDeviceID, fdev device2 device1]
           [fdev device1 EmptyDeviceID, fdev device2 EmptyDeviceID])))
   = [False, True]"
  by code_simp+

lemma TestIntroducer_other_introducer:
  "find (\<lambda>d. dc_DeviceID d = device2)
     (cfg_Devices (introducerStep myID device1 \<lparr>cc_Folders = []\<rparr>
        (twoFolders [introducer1, introduced2]
           [fdev device1 EmptyDeviceID, fdev device2 device1]
           [fdev device1 EmptyDeviceID, fdev device2 myID])))
   = Some introduced2"
  "map (\<lambda>f. contains f device2 EmptyDeviceID)
     (cfg_Folders (introducerStep myID device1 \<lparr>cc_Folders = []\<rparr>
        (twoFolders [introducer1, introduced2]
           [fdev device1 EmptyDeviceID, fdev device2 device1]
           [fdev device1 EmptyDeviceID, fdev device2 myID])))
   = [False, True]"
  by code_simp+

theorem introducer_removal_witness:
  "find (\<lambda>d. dc_DeviceID d = device1) (cfg_Devices bothIntroduced) = Some introducer1
   \<and> dc_Introducer introducer1 \<and> \<not> dc_SkipIntroductionRemovals introducer1
   \<and> 0 < length (cfg_Folders bothIntroduced)
   \<and> SharedWith (cfg_Folders bothIntroduced ! 0) device2
   \<and> list_all (\<lambda>e. fd_DeviceID e \<noteq> device2 \<or> fd_IntroducedBy e = device1)
        (fc_Devices (cfg_Folders bothIntroduced ! 0))
   \<and> \<not> listed \<lparr>cc_Folders = []\<rparr> (fc_ID (cfg_Folders bothIntroduced ! 0)) device2
   \<and> \<not> SharedWith (cfg_Folders (introducerStep myID device1 \<lparr>cc_Folders = []\<rparr> bothIntroduced) ! 0) device2
   \<and> device2 \<notin> dc_DeviceID ` set (cfg_Devices (introducerStep myID device1 \<lparr>cc_Folders = []\<rparr> bothIntroduced))"
proof -
  have h1: "find (\<lambda>d. dc_DeviceID d = device1) (cfg_Devices bothIntroduced) = Some introducer1"
    by code_simp
  have h2: "dc_Introducer introducer1" "\<not> dc_SkipIntroductionRemovals introducer1"
    by (simp_all add: introducer1_def zeroDevice_def)
  have h3: "0 < length (cfg_Folders bothIntroduced)"
    by (simp add: bothIntroduced_def twoFolders_def)
  have h4: "SharedWith (cfg_Folders bothIntroduced ! 0) device2"
    by code_simp
  have h5': "list_all (\<lambda>e. fd_DeviceID e \<noteq> device2 \<or> fd_IntroducedBy e = device1)
        (fc_Devices (cfg_Folders bothIntroduced ! 0))"
    by code_simp
  then have h5: "\<forall>e\<in>set (fc_Devices (cfg_Folders bothIntroduced ! 0)).
      fd_DeviceID e = device2 \<longrightarrow> fd_IntroducedBy e = device1"
    by (auto simp: list_all_iff)
  have h6: "\<not> listed \<lparr>cc_Folders = []\<rparr> (fc_ID (cfg_Folders bothIntroduced ! 0)) device2"
    by (simp add: listed_def)
  have n: "list_all (\<lambda>f. \<not> SharedWith f device2)
      (cfg_Folders (introducerStep myID device1 \<lparr>cc_Folders = []\<rparr> bothIntroduced))"
    by code_simp
  then have n': "\<forall>f\<in>set (cfg_Folders (introducerStep myID device1 \<lparr>cc_Folders = []\<rparr> bothIntroduced)).
      \<not> SharedWith f device2"
    by (simp add: list_all_iff)
  from introducer_removal [OF h1 h2 h3 h4 h5 h6, of myID] n'
  have "\<not> SharedWith (cfg_Folders (introducerStep myID device1 \<lparr>cc_Folders = []\<rparr> bothIntroduced) ! 0) device2"
    and "device2 \<notin> dc_DeviceID ` set (cfg_Devices (introducerStep myID device1 \<lparr>cc_Folders = []\<rparr> bothIntroduced))"
    by blast+
  with h1 h2 h3 h4 h5' h6 show ?thesis by simp
qed


end
